theory Spec2Isabelle
  imports Complex_Main "HOL-Library.AList"
begin

section \<open>The crash-game round engine (src/server/game-logic.js)\<close>

text \<open>
  The theory embeds the class \<open>GameEngine\<close> of \<open>src/server/game-logic.js\<close>. The object
  is a record that every method takes and returns. What a method reads from the
  outside world is an argument: a reading of \<open>Date.now()\<close> is an \<open>int\<close> (milliseconds),
  a draw of \<open>Math.random()\<close> is a \<open>real\<close>. \<open>this.emit(...)\<close> appends to the field
  \<open>emitted\<close>, in the order of the calls (the listeners registered by the server do not
  call back into the engine). \<open>console.log\<close> has no effect on the engine and is left out.

  Numbers are JavaScript doubles in the source. The model computes with exact reals
  and keeps the three non-finite values apart where a caller can pass them in (a bet
  amount, an auto-cash-out threshold); rounding of doubles is not modelled.
\<close>

subsection \<open>JavaScript numbers\<close>

datatype jsnum = JNum real | JNaN | JPosInf | JNegInf

text \<open>Truthiness of a number: \<open>0\<close> and \<open>NaN\<close> are falsy.\<close>

fun truthy :: "jsnum \<Rightarrow> bool" where
  "truthy (JNum r) = (r \<noteq> 0)"
| "truthy JNaN = False"
| "truthy JPosInf = True"
| "truthy JNegInf = True"

text \<open>The operator \<open><\<close>: false as soon as one side is \<open>NaN\<close>.\<close>

fun js_lt :: "jsnum \<Rightarrow> jsnum \<Rightarrow> bool" where
  "js_lt (JNum a) (JNum b) = (a < b)"
| "js_lt (JNum a) JPosInf = True"
| "js_lt JNegInf (JNum b) = True"
| "js_lt JNegInf JPosInf = True"
| "js_lt _ _ = False"

text \<open>The operator \<open>>=\<close>: false as soon as one side is \<open>NaN\<close>.\<close>

fun js_ge :: "jsnum \<Rightarrow> jsnum \<Rightarrow> bool" where
  "js_ge JNaN _ = False"
| "js_ge _ JNaN = False"
| "js_ge a b = (\<not> js_lt a b)"

fun js_add :: "jsnum \<Rightarrow> jsnum \<Rightarrow> jsnum" where
  "js_add (JNum a) (JNum b) = JNum (a + b)"
| "js_add JNaN _ = JNaN"
| "js_add _ JNaN = JNaN"
| "js_add JPosInf JNegInf = JNaN"
| "js_add JNegInf JPosInf = JNaN"
| "js_add JPosInf _ = JPosInf"
| "js_add _ JPosInf = JPosInf"
| "js_add JNegInf _ = JNegInf"
| "js_add _ JNegInf = JNegInf"

fun js_neg :: "jsnum \<Rightarrow> jsnum" where
  "js_neg (JNum a) = JNum (- a)"
| "js_neg JNaN = JNaN"
| "js_neg JPosInf = JNegInf"
| "js_neg JNegInf = JPosInf"

text \<open>An infinity times a finite factor: the sign of the factor decides, zero gives \<open>NaN\<close>.\<close>

definition inf_times :: "jsnum \<Rightarrow> real \<Rightarrow> jsnum" where
  "inf_times i r = (if r = 0 then JNaN else if 0 < r then i else js_neg i)"

fun js_mul :: "jsnum \<Rightarrow> jsnum \<Rightarrow> jsnum" where
  "js_mul (JNum a) (JNum b) = JNum (a * b)"
| "js_mul JNaN _ = JNaN"
| "js_mul _ JNaN = JNaN"
| "js_mul JPosInf (JNum b) = inf_times JPosInf b"
| "js_mul JNegInf (JNum b) = inf_times JNegInf b"
| "js_mul (JNum a) JPosInf = inf_times JPosInf a"
| "js_mul (JNum a) JNegInf = inf_times JNegInf a"
| "js_mul JPosInf JPosInf = JPosInf"
| "js_mul JNegInf JNegInf = JPosInf"
| "js_mul JPosInf JNegInf = JNegInf"
| "js_mul JNegInf JPosInf = JNegInf"

text \<open>
  \<open>Number(x.toFixed(d))\<close> and \<open>parseFloat(x.toFixed(d))\<close>: the decimal with \<open>d\<close> digits
  nearest to \<open>x\<close>, a tie going to the larger magnitude; from \<open>10^21\<close> on \<open>toFixed\<close>
  prints the number itself.
\<close>

definition toFixed :: "nat \<Rightarrow> real \<Rightarrow> real" where
  "toFixed d x =
     (if 10 ^ 21 \<le> \<bar>x\<bar> then x
      else if x < 0 then - (of_int \<lfloor>(- x) * 10 ^ d + 1 / 2\<rfloor> / 10 ^ d)
      else of_int \<lfloor>x * 10 ^ d + 1 / 2\<rfloor> / 10 ^ d)"

subsection \<open>The engine object\<close>

datatype game_state = WAITING | STARTING | FLYING | CRASHED

type_synonym playerId = string

text \<open>An entry of \<open>activePlayers\<close>; \<open>autoCashOut\<close> is \<open>None\<close> for \<open>null\<close>.\<close>

record playerData =
  bet :: jsnum
  autoCashOut :: "jsnum option"
  hasWon :: bool
  placedAt :: int

record wait_range =
  wt_min :: int
  wt_max :: int

record config =
  waitTime :: wait_range
  countdownTime :: int
  updateInterval :: int
  predictionInterval :: int
  maxGameTime :: int
  historySize :: nat

record growth =
  mode :: string
  rate :: real
  minMultiplier :: real
  capMultiplier :: real

record stats =
  totalGames :: nat
  totalBets :: jsnum
  totalPayouts :: jsnum
  averageMultiplier :: real
  uptime :: int

text \<open>The object returned by \<open>buildMultiplierPayload\<close>.\<close>

record payload =
  pl_state :: game_state
  pl_multiplier :: real
  pl_displayMultiplier :: real
  pl_time :: real
  pl_timestamp :: int
  pl_growthRate :: real

text \<open>The entries of the two lists built by \<open>finalizeBets\<close>.\<close>

record participant =
  pt_playerId :: playerId
  pt_betAmount :: jsnum
  pt_autoCashOut :: "jsnum option"
  pt_hasWon :: bool

record loser =
  ls_playerId :: playerId
  ls_betAmount :: jsnum

record settlement =
  participants :: "participant list"
  losers :: "loser list"

text \<open>
  One constructor for each shape of \<open>this.emit(name, data)\<close> in the source, with the
  fields of \<open>data\<close> in the order the source writes them.
\<close>

datatype event =
    GameStateWaiting game_state real
      \<comment> \<open>\<open>game_state_changed {state, nextGameIn}\<close>\<close>
  | GameStateStarting game_state real
      \<comment> \<open>\<open>game_state_changed {state, countdown}\<close>\<close>
  | GameStateSnapshot payload
      \<comment> \<open>\<open>game_state_changed\<close> with a \<open>buildMultiplierPayload\<close>\<close>
  | GameStateCrashed game_state real
      \<comment> \<open>\<open>game_state_changed {state, finalMultiplier}\<close>\<close>
  | MultiplierUpdate payload
      \<comment> \<open>\<open>multiplier_update\<close>\<close>
  | PlayerAutoCashedOut playerId real jsnum jsnum
      \<comment> \<open>\<open>player_auto_cashed_out {playerId, multiplier, winAmount, betAmount}\<close>\<close>
  | RoundSettled real "loser list" "participant list"
      \<comment> \<open>\<open>round_settled {finalMultiplier, losers, participants}\<close>\<close>

text \<open>
  The callback a pending \<open>setTimeout\<close> will run. \<open>stateTimeout\<close> is \<open>None\<close> when no
  timeout is pending; \<open>gameLoopInterval\<close> tells whether the tick interval is running.
\<close>

datatype callback = StartCountdown | StartGame | ScheduleNextGame

record engine =
  state :: game_state
  multiplier :: real
  startTime :: "int option"
  gameId :: nat
  history :: "real list"
  activePlayers :: "(playerId \<times> playerData) list"
  cashedOutPlayers :: "playerId set"
  gameLoopInterval :: bool
  stateTimeout :: "(callback \<times> int) option"
  config :: config
  growth :: growth
  stats :: stats
  lastPredictionBroadcast :: int
  emitted :: "event list"

text \<open>The constructor; \<open>now\<close> is the clock reading stored in \<open>stats.uptime\<close>.\<close>

definition GameEngine :: "int \<Rightarrow> engine" where
  "GameEngine now =
     \<lparr> state = WAITING,
       multiplier = 1.00,
       startTime = None,
       gameId = 0,
       history = [],
       activePlayers = [],
       cashedOutPlayers = {},
       gameLoopInterval = False,
       stateTimeout = None,
       config = \<lparr> waitTime = \<lparr> wt_min = 3000, wt_max = 7000 \<rparr>,
                  countdownTime = 3000,
                  updateInterval = 100,
                  predictionInterval = 1000,
                  maxGameTime = 90000,
                  historySize = 20 \<rparr>,
       growth = \<lparr> mode = ''exponential'',
                  rate = 0.2,
                  minMultiplier = 1.0,
                  capMultiplier = 250 \<rparr>,
       stats = \<lparr> totalGames = 0,
                 totalBets = JNum 0,
                 totalPayouts = JNum 0,
                 averageMultiplier = 0,
                 uptime = now \<rparr>,
       lastPredictionBroadcast = 0,
       emitted = [] \<rparr>"

definition emit :: "event \<Rightarrow> engine \<Rightarrow> engine" where
  "emit e s = s\<lparr>emitted := emitted s @ [e]\<rparr>"

subsection \<open>Multiplier and crash decision\<close>

definition calculateMultiplier :: "engine \<Rightarrow> real \<Rightarrow> real" where
  "calculateMultiplier s timeInSeconds =
     (let m = exp (rate (growth s) * timeInSeconds)
      in min (max m (minMultiplier (growth s))) (capMultiplier (growth s)))"

text \<open>
  \<open>this.startTime ? (Date.now() - this.startTime) / 1000 : 0\<close>: a start time that is
  \<open>null\<close> or \<open>0\<close> is falsy.
\<close>

definition elapsedSince :: "int option \<Rightarrow> int \<Rightarrow> real" where
  "elapsedSince st now =
     (case st of
        None \<Rightarrow> 0
      | Some t \<Rightarrow> if t = 0 then 0 else real_of_int (now - t) / 1000)"

text \<open>The local variable \<open>crashChance\<close> of \<open>shouldCrash\<close>, as the method leaves it.\<close>

definition crashChance :: "real \<Rightarrow> real \<Rightarrow> real" where
  "crashChance elapsedSeconds m =
     (let c0 = 0.0008;
          c1 = (if elapsedSeconds > 30 then c0 + (elapsedSeconds - 30) * 0.0006 else c0);
          c2 = (if m > 5 then c1 + (m - 5) * 0.0015 else c1)
      in min c2 0.08)"

text \<open>\<open>shouldCrash(multiplier)\<close>, with its clock reading and its random draw.\<close>

definition shouldCrash :: "engine \<Rightarrow> int \<Rightarrow> real \<Rightarrow> real \<Rightarrow> bool" where
  "shouldCrash s now rnd m = (rnd < crashChance (elapsedSince (startTime s) now) m)"

subsection \<open>Timers and the round cycle\<close>

definition clearTimers :: "engine \<Rightarrow> engine" where
  "clearTimers s = s\<lparr>gameLoopInterval := False, stateTimeout := None\<rparr>"

definition getRandomWaitTime :: "real \<Rightarrow> engine \<Rightarrow> int" where
  "getRandomWaitTime rnd s =
     (let mn = wt_min (waitTime (config s)); mx = wt_max (waitTime (config s))
      in \<lfloor>rnd * real_of_int (mx - mn + 1)\<rfloor> + mn)"

text \<open>
  \<open>buildMultiplierPayload(explicitElapsed = null, explicitTimestamp = null)\<close>; \<open>now\<close> is
  the reading of \<open>Date.now()\<close> taken when no timestamp is given.
\<close>

definition buildMultiplierPayload :: "real option \<Rightarrow> int option \<Rightarrow> int \<Rightarrow> engine \<Rightarrow> payload" where
  "buildMultiplierPayload explicitElapsed explicitTimestamp now s =
     (let timestamp = (case explicitTimestamp of Some t \<Rightarrow> t | None \<Rightarrow> now);
          elapsed = (case explicitElapsed of
                       Some e \<Rightarrow> e
                     | None \<Rightarrow> elapsedSince (startTime s) timestamp)
      in \<lparr> pl_state = state s,
           pl_multiplier = toFixed 4 (multiplier s),
           pl_displayMultiplier = toFixed 2 (multiplier s),
           pl_time = elapsed,
           pl_timestamp = timestamp,
           pl_growthRate = rate (growth s) \<rparr>)"

definition scheduleNextGame :: "real \<Rightarrow> engine \<Rightarrow> engine" where
  "scheduleNextGame rnd s =
     (let waitTime = getRandomWaitTime rnd s;
          s1 = s\<lparr>state := WAITING\<rparr>;
          s2 = emit (GameStateWaiting (state s1) (real_of_int waitTime / 1000)) s1
      in s2\<lparr>stateTimeout := Some (StartCountdown, waitTime)\<rparr>)"

definition start :: "real \<Rightarrow> engine \<Rightarrow> engine" where
  "start rnd s = scheduleNextGame rnd s"

definition stop :: "engine \<Rightarrow> engine" where
  "stop s = (clearTimers s)\<lparr>state := WAITING\<rparr>"

definition startCountdown :: "engine \<Rightarrow> engine" where
  "startCountdown s =
     (let s1 = s\<lparr>state := STARTING, cashedOutPlayers := {}\<rparr>;
          s2 = emit (GameStateStarting (state s1)
                       (real_of_int (countdownTime (config s1)) / 1000)) s1
      in s2\<lparr>stateTimeout := Some (StartGame, countdownTime (config s2))\<rparr>)"

definition startGameLoop :: "engine \<Rightarrow> engine" where
  "startGameLoop s = s\<lparr>gameLoopInterval := True\<rparr>"

text \<open>
  \<open>startGame\<close> reads the clock twice: for \<open>startTime\<close> and, inside
  \<open>buildMultiplierPayload(0)\<close>, for the timestamp of the first snapshot.
\<close>

definition startGame :: "int \<Rightarrow> int \<Rightarrow> engine \<Rightarrow> engine" where
  "startGame now nowPayload s =
     (let s1 = s\<lparr>gameId := gameId s + 1\<rparr>;
          s2 = s1\<lparr>state := FLYING,
                  multiplier := 1.00,
                  startTime := Some now,
                  cashedOutPlayers := {},
                  lastPredictionBroadcast := 0\<rparr>;
          s3 = emit (GameStateSnapshot (buildMultiplierPayload (Some 0) None nowPayload s2)) s2
      in startGameLoop s3)"

subsection \<open>Settlement\<close>

definition performAutoCashOut :: "playerId \<Rightarrow> playerData \<Rightarrow> engine \<Rightarrow> engine" where
  "performAutoCashOut pid pd s =
     (let winAmount = js_mul (bet pd) (JNum (multiplier s));
          s1 = s\<lparr>cashedOutPlayers := insert pid (cashedOutPlayers s)\<rparr>;
          s2 = s1\<lparr>activePlayers :=
                    AList.map_entry pid (\<lambda>d. d\<lparr>hasWon := True\<rparr>) (activePlayers s1)\<rparr>;
          s3 = s2\<lparr>stats := (stats s2)\<lparr>totalPayouts :=
                    js_add (totalPayouts (stats s2)) winAmount\<rparr>\<rparr>
      in emit (PlayerAutoCashedOut pid (multiplier s3) winAmount (bet pd)) s3)"

text \<open>
  The condition of the \<open>if\<close> in \<open>checkAutoCashOuts\<close>:
  \<open>playerData.autoCashOut && !this.cashedOutPlayers.has(playerId) &&
  this.multiplier >= playerData.autoCashOut\<close>.
\<close>

definition autoCashOutDue :: "playerId \<Rightarrow> playerData \<Rightarrow> engine \<Rightarrow> bool" where
  "autoCashOutDue pid pd s =
     (case autoCashOut pd of
        None \<Rightarrow> False
      | Some a \<Rightarrow> truthy a \<and> pid \<notin> cashedOutPlayers s \<and> js_ge (JNum (multiplier s)) a)"

text \<open>The \<open>for ... of this.activePlayers\<close> loop, over the entries in insertion order.\<close>

fun checkAutoCashOuts_loop :: "(playerId \<times> playerData) list \<Rightarrow> engine \<Rightarrow> engine" where
  "checkAutoCashOuts_loop [] s = s"
| "checkAutoCashOuts_loop ((pid, pd) # rest) s =
     checkAutoCashOuts_loop rest
       (if autoCashOutDue pid pd s then performAutoCashOut pid pd s else s)"

definition checkAutoCashOuts :: "engine \<Rightarrow> engine" where
  "checkAutoCashOuts s = checkAutoCashOuts_loop (activePlayers s) s"

text \<open>The loop of \<open>finalizeBets\<close>, pushing onto \<open>participants\<close> and \<open>losers\<close>.\<close>

fun finalizeBets_loop ::
  "(playerId \<times> playerData) list \<Rightarrow> playerId set \<Rightarrow> settlement \<Rightarrow> settlement" where
  "finalizeBets_loop [] co acc = acc"
| "finalizeBets_loop ((pid, pd) # rest) co acc =
     (let record = \<lparr> pt_playerId = pid,
                      pt_betAmount = bet pd,
                      pt_autoCashOut = autoCashOut pd,
                      pt_hasWon = (pid \<in> co) \<rparr>;
          acc1 = acc\<lparr>participants := participants acc @ [record]\<rparr>;
          acc2 = (if \<not> pt_hasWon record
                  then acc1\<lparr>losers := losers acc1 @
                              [\<lparr> ls_playerId = pid, ls_betAmount = bet pd \<rparr>]\<rparr>
                  else acc1)
      in finalizeBets_loop rest co acc2)"

definition finalizeBets :: "engine \<Rightarrow> settlement \<times> engine" where
  "finalizeBets s =
     (finalizeBets_loop (activePlayers s) (cashedOutPlayers s)
        \<lparr> participants = [], losers = [] \<rparr>,
      s\<lparr>activePlayers := [], cashedOutPlayers := {}\<rparr>)"

definition addToHistory :: "real \<Rightarrow> engine \<Rightarrow> engine" where
  "addToHistory m s =
     (let s1 = s\<lparr>history := toFixed 2 m # history s\<rparr>
      in if length (history s1) > historySize (config s1)
         then s1\<lparr>history := butlast (history s1)\<rparr>
         else s1)"

definition updateAverageMultiplier :: "engine \<Rightarrow> engine" where
  "updateAverageMultiplier s =
     (if length (history s) > 0
      then s\<lparr>stats := (stats s)\<lparr>averageMultiplier :=
                foldl (+) 0 (history s) / real (length (history s))\<rparr>\<rparr>
      else s)"

text \<open>
  \<open>crashGame(trigger = null)\<close>. The argument \<open>trigger\<close> is read by the \<open>console.log\<close> line
  alone; \<open>now\<close> is the clock reading taken when \<open>startTime\<close> is truthy.
\<close>

definition crashGame :: "string option \<Rightarrow> int \<Rightarrow> engine \<Rightarrow> engine" where
  "crashGame trigger now s =
     (let s1 = (clearTimers s)\<lparr>state := CRASHED\<rparr>;
          s2 = (case startTime s1 of
                  None \<Rightarrow> s1
                | Some st \<Rightarrow>
                    if st = 0 then s1
                    else emit (MultiplierUpdate
                           (buildMultiplierPayload (Some (real_of_int (now - st) / 1000))
                              (Some now) now s1)) s1);
          s3 = s2\<lparr>stats := (stats s2)\<lparr>totalGames := totalGames (stats s2) + 1\<rparr>\<rparr>;
          s4 = updateAverageMultiplier s3;
          s5 = addToHistory (multiplier s4) s4;
          (settlement, s6) = finalizeBets s5;
          s7 = emit (GameStateCrashed (state s6) (multiplier s6)) s6;
          s8 = emit (RoundSettled (multiplier s7) (losers settlement)
                       (participants settlement)) s7
      in s8\<lparr>stateTimeout := Some (ScheduleNextGame, 2000)\<rparr>)"

datatype force_result =
    ForceCrashOk real          \<comment> \<open>\<open>{success: true, multiplier}\<close>\<close>
  | ForceCrashError string     \<comment> \<open>\<open>{success: false, error}\<close>\<close>

definition forceCrash :: "string \<Rightarrow> int \<Rightarrow> engine \<Rightarrow> force_result \<times> engine" where
  "forceCrash reason now s =
     (if state s \<noteq> FLYING
      then (ForceCrashError ''Game is not currently flying'', s)
      else (let s1 = crashGame (Some reason) now s
            in (ForceCrashOk (multiplier s1), s1)))"

text \<open>
  \<open>updateGame\<close>, the body of the tick. It reads the clock itself (\<open>now\<close>), again inside
  \<open>shouldCrash\<close> (\<open>nowShould\<close>) and again inside \<open>crashGame\<close> (\<open>nowCrash\<close>); \<open>rnd\<close> is the
  draw of \<open>Math.random()\<close>. In \<open>now - this.startTime\<close> a \<open>null\<close> start time counts as 0.
\<close>

definition updateGame :: "int \<Rightarrow> int \<Rightarrow> int \<Rightarrow> real \<Rightarrow> engine \<Rightarrow> engine" where
  "updateGame now nowShould nowCrash rnd s =
     (if state s \<noteq> FLYING then s
      else
        let elapsed = real_of_int (now - (case startTime s of None \<Rightarrow> 0 | Some st \<Rightarrow> st)) / 1000;
            newMultiplier = calculateMultiplier s elapsed;
            s1 = s\<lparr>multiplier := newMultiplier\<rparr>;
            s2 = (if lastPredictionBroadcast s1 = 0
                     \<or> now - lastPredictionBroadcast s1 \<ge> predictionInterval (config s1)
                  then (let s1a = s1\<lparr>lastPredictionBroadcast := now\<rparr>
                        in emit (MultiplierUpdate
                              (buildMultiplierPayload (Some elapsed) (Some now) now s1a)) s1a)
                  else s1)
        in if shouldCrash s2 nowShould rnd (multiplier s2) then crashGame None nowCrash s2
           else if elapsed \<ge> real_of_int (maxGameTime (config s2)) / 1000
           then crashGame None nowCrash s2
           else (let s3 = checkAutoCashOuts s2
                 in emit (GameStateSnapshot
                       (buildMultiplierPayload (Some elapsed) (Some now) now s3)) s3))"

subsection \<open>Player commands\<close>

definition canPlaceBet :: "engine \<Rightarrow> bool" where
  "canPlaceBet s = (state s = WAITING \<or> state s = STARTING)"

text \<open>
  \<open>autoCashOut && autoCashOut < 1.01\<close>, the validation in \<open>placeBet\<close>; the argument
  defaults to \<open>null\<close>.
\<close>

definition thresholdRejected :: "jsnum option \<Rightarrow> bool" where
  "thresholdRejected a =
     (case a of None \<Rightarrow> False | Some x \<Rightarrow> truthy x \<and> js_lt x (JNum 1.01))"

definition placeBet ::
  "playerId \<Rightarrow> jsnum \<Rightarrow> jsnum option \<Rightarrow> int \<Rightarrow> engine \<Rightarrow> bool \<times> engine" where
  "placeBet pid amount aco now s =
     (if \<not> canPlaceBet s then (False, s)
      else if thresholdRejected aco then (False, s)
      else
        (let s1 = s\<lparr>activePlayers :=
                      AList.update pid
                        \<lparr> bet = amount, autoCashOut = aco, hasWon = False, placedAt = now \<rparr>
                        (activePlayers s)\<rparr>;
             s2 = s1\<lparr>stats := (stats s1)\<lparr>totalBets := js_add (totalBets (stats s1)) amount\<rparr>\<rparr>
         in (True, s2)))"

datatype cashout_result =
    CashOutOk real jsnum jsnum   \<comment> \<open>\<open>{success: true, multiplier, winAmount, betAmount}\<close>\<close>
  | CashOutError string          \<comment> \<open>\<open>{success: false, error}\<close>\<close>

text \<open>
  \<open>cashOut\<close>. \<open>activePlayers.has(playerId)\<close> followed by \<open>activePlayers.get(playerId)\<close>
  is one lookup here: the entry is absent exactly when \<open>has\<close> is false.
\<close>

definition cashOut :: "playerId \<Rightarrow> engine \<Rightarrow> cashout_result \<times> engine" where
  "cashOut pid s =
     (if state s \<noteq> FLYING then (CashOutError ''Cannot cash out at this time'', s)
      else case map_of (activePlayers s) pid of
        None \<Rightarrow> (CashOutError ''No active bet found'', s)
      | Some pd \<Rightarrow>
          if pid \<in> cashedOutPlayers s then (CashOutError ''Already cashed out'', s)
          else
            (let winAmount = js_mul (bet pd) (JNum (multiplier s));
                 s1 = s\<lparr>cashedOutPlayers := insert pid (cashedOutPlayers s)\<rparr>;
                 s2 = s1\<lparr>activePlayers :=
                           AList.map_entry pid (\<lambda>d. d\<lparr>hasWon := True\<rparr>) (activePlayers s1)\<rparr>;
                 s3 = s2\<lparr>stats := (stats s2)\<lparr>totalPayouts :=
                           js_add (totalPayouts (stats s2)) winAmount\<rparr>\<rparr>
             in (CashOutOk (multiplier s3) winAmount (bet pd), s3)))"

definition removePlayer :: "playerId \<Rightarrow> engine \<Rightarrow> engine" where
  "removePlayer pid s =
     s\<lparr>activePlayers := AList.delete pid (activePlayers s),
       cashedOutPlayers := cashedOutPlayers s - {pid}\<rparr>"

subsection \<open>The engine driven from outside\<close>

text \<open>
  What reaches a started engine: the four commands, the pending timeout running its
  callback, and the tick interval running \<open>updateGame\<close>. Each input carries the clock
  readings and random draws its handler takes. A timeout that has run is no longer
  pending. \<open>stop\<close>, which the server calls when the process shuts down, is not among
  the inputs.
\<close>

datatype input =
    PlaceBet playerId jsnum "jsnum option" int
  | CashOut playerId
  | RemovePlayer playerId
  | ForceCrash string int
  | TimeoutFires real int int
  | IntervalFires int int int real

datatype response =
    BetResult bool
  | CashOutResult cashout_result
  | ForceCrashResult force_result
  | NoResult

definition timeoutFires :: "real \<Rightarrow> int \<Rightarrow> int \<Rightarrow> engine \<Rightarrow> engine" where
  "timeoutFires rnd now nowPayload s =
     (case stateTimeout s of
        None \<Rightarrow> s
      | Some (cb, delay) \<Rightarrow>
          (let s0 = s\<lparr>stateTimeout := None\<rparr>
           in case cb of
                StartCountdown \<Rightarrow> startCountdown s0
              | StartGame \<Rightarrow> startGame now nowPayload s0
              | ScheduleNextGame \<Rightarrow> scheduleNextGame rnd s0))"

definition intervalFires :: "int \<Rightarrow> int \<Rightarrow> int \<Rightarrow> real \<Rightarrow> engine \<Rightarrow> engine" where
  "intervalFires now nowShould nowCrash rnd s =
     (if gameLoopInterval s then updateGame now nowShould nowCrash rnd s else s)"

fun step :: "input \<Rightarrow> engine \<Rightarrow> response \<times> engine" where
  "step (PlaceBet pid amount aco now) s =
     (let (r, s1) = placeBet pid amount aco now s in (BetResult r, s1))"
| "step (CashOut pid) s =
     (let (r, s1) = cashOut pid s in (CashOutResult r, s1))"
| "step (RemovePlayer pid) s = (NoResult, removePlayer pid s)"
| "step (ForceCrash reason now) s =
     (let (r, s1) = forceCrash reason now s in (ForceCrashResult r, s1))"
| "step (TimeoutFires rnd now nowPayload) s = (NoResult, timeoutFires rnd now nowPayload s)"
| "step (IntervalFires now nowShould nowCrash rnd) s =
     (NoResult, intervalFires now nowShould nowCrash rnd s)"

text \<open>Running a list of inputs; the responses are collected in order.\<close>

fun run :: "input list \<Rightarrow> engine \<Rightarrow> response list \<times> engine" where
  "run [] s = ([], s)"
| "run (i # is) s =
     (let (r, s1) = step i s; (rs, s2) = run is s1 in (r # rs, s2))"

subsection \<open>The growth law in the specification's words\<close>

text \<open>
  \<open>clamp(exp(rate \<times> elapsed), 1.0, cap)\<close>, written from the specification to compare
  \<open>calculateMultiplier\<close> with.
\<close>

definition spec_clamp :: "real \<Rightarrow> real \<Rightarrow> real \<Rightarrow> real" where
  "spec_clamp x lo hi = (if x < lo then lo else if hi < x then hi else x)"

definition spec_multiplier :: "real \<Rightarrow> real \<Rightarrow> real \<Rightarrow> real" where
  "spec_multiplier r cap elapsed = spec_clamp (exp (r * elapsed)) 1.0 cap"

subsection \<open>What an observer of a run sees\<close>

definition succeeded :: "cashout_result \<Rightarrow> bool" where
  "succeeded r = (case r of CashOutOk _ _ _ \<Rightarrow> True | CashOutError _ \<Rightarrow> False)"

text \<open>\<open>this.activePlayers.has(playerId)\<close>, and the truthiness of a stored threshold.\<close>

definition hasWager :: "playerId \<Rightarrow> engine \<Rightarrow> bool" where
  "hasWager pid s = (pid \<in> fst ` set (activePlayers s))"

definition thresholdSet :: "jsnum option \<Rightarrow> bool" where
  "thresholdSet a = (case a of None \<Rightarrow> False | Some x \<Rightarrow> truthy x)"

text \<open>
  Projections of the event log and of the responses of a run: the final multipliers of
  the \<open>round_settled\<close> events in order, how often a player was cashed out automatically,
  how often a settlement listed the player among the losers or the participants, and
  how often a \<open>cashOut\<close> command of the player succeeded.
\<close>

fun finalOf :: "event \<Rightarrow> real list" where
  "finalOf (RoundSettled m ls ps) = [m]"
| "finalOf _ = []"

definition finalMultipliers :: "event list \<Rightarrow> real list" where
  "finalMultipliers evs = concat (map finalOf evs)"

fun isAutoCashOut :: "playerId \<Rightarrow> event \<Rightarrow> bool" where
  "isAutoCashOut pid (PlayerAutoCashedOut q m w b) = (q = pid)"
| "isAutoCashOut pid _ = False"

fun listsLoser :: "playerId \<Rightarrow> event \<Rightarrow> bool" where
  "listsLoser pid (RoundSettled m ls ps) = (pid \<in> ls_playerId ` set ls)"
| "listsLoser pid _ = False"

fun listsParticipant :: "playerId \<Rightarrow> event \<Rightarrow> bool" where
  "listsParticipant pid (RoundSettled m ls ps) = (pid \<in> pt_playerId ` set ps)"
| "listsParticipant pid _ = False"

fun isRoundSettled :: "event \<Rightarrow> bool" where
  "isRoundSettled (RoundSettled m ls ps) = True"
| "isRoundSettled _ = False"

definition autoCashOuts :: "playerId \<Rightarrow> event list \<Rightarrow> nat" where
  "autoCashOuts pid evs = length (filter (isAutoCashOut pid) evs)"

definition lossesListed :: "playerId \<Rightarrow> event list \<Rightarrow> nat" where
  "lossesListed pid evs = length (filter (listsLoser pid) evs)"

definition settlements :: "event list \<Rightarrow> nat" where
  "settlements evs = length (filter isRoundSettled evs)"

definition participated :: "playerId \<Rightarrow> event list \<Rightarrow> bool" where
  "participated pid evs = (filter (listsParticipant pid) evs \<noteq> [])"

fun isManualCashOut :: "playerId \<Rightarrow> input \<times> response \<Rightarrow> bool" where
  "isManualCashOut pid (CashOut q, CashOutResult r) = (q = pid \<and> succeeded r)"
| "isManualCashOut pid _ = False"

definition manualCashOuts :: "playerId \<Rightarrow> input list \<Rightarrow> response list \<Rightarrow> nat" where
  "manualCashOuts pid ins rs = length (filter (isManualCashOut pid) (zip ins rs))"

text \<open>The number of outcomes recorded for a player.\<close>

definition outcomes :: "playerId \<Rightarrow> input list \<Rightarrow> response list \<Rightarrow> event list \<Rightarrow> nat" where
  "outcomes pid ins rs evs =
     manualCashOuts pid ins rs + autoCashOuts pid evs + lossesListed pid evs"

text \<open>The events emitted after the engine was in state \<open>s0\<close>.\<close>

definition eventsSince :: "engine \<Rightarrow> engine \<Rightarrow> event list" where
  "eventsSince s0 s = drop (length (emitted s0)) (emitted s)"

text \<open>
  A flight that ends in a settlement: every input is handled while FLYING, and the last
  one leaves the engine CRASHED.
\<close>

fun settles :: "input list \<Rightarrow> engine \<Rightarrow> bool" where
  "settles [] s = (state s = CRASHED)"
| "settles (i # is) s = (state s = FLYING \<and> settles is (snd (step i s)))"

text \<open>The players with a wager that is not cashed out.\<close>

definition unsettled :: "engine \<Rightarrow> playerId set" where
  "unsettled s = fst ` set (activePlayers s) - cashedOutPlayers s"




text \<open>
  The history is the newest \<open>historySize\<close> final multipliers of the event log, each as
  \<open>addToHistory\<close> rounds it.
\<close>

definition historyLogged :: "engine \<Rightarrow> bool" where
  "historyLogged s =
     (history s = take (historySize (config s))
                    (map (toFixed 2) (rev (finalMultipliers (emitted s)))))"

subsection \<open>Names for what the methods build\<close>

text \<open>
  The two record literals of \<open>finalizeBets\<close>, the snapshot \<open>crashGame\<close> emits first, the
  event \<open>performAutoCashOut\<close> emits for an entry, and the events that are neither an
  automatic cash-out nor a settlement.
\<close>

definition participantOf :: "playerId set \<Rightarrow> playerId \<times> playerData \<Rightarrow> participant" where
  "participantOf co e = \<lparr> pt_playerId = fst e, pt_betAmount = bet (snd e),
       pt_autoCashOut = autoCashOut (snd e), pt_hasWon = (fst e \<in> co) \<rparr>"

definition loserOf :: "playerId \<times> playerData \<Rightarrow> loser" where
  "loserOf e = \<lparr> ls_playerId = fst e, ls_betAmount = bet (snd e) \<rparr>"

definition crashSnapshot :: "int \<Rightarrow> engine \<Rightarrow> event list" where
  "crashSnapshot now s =
     (case startTime s of None \<Rightarrow> []
      | Some st \<Rightarrow> if st = 0 then []
          else [MultiplierUpdate (buildMultiplierPayload (Some (real_of_int (now - st) / 1000))
                  (Some now) now ((clearTimers s)\<lparr>state := CRASHED\<rparr>))])"

definition autoEvent :: "engine \<Rightarrow> playerId \<times> playerData \<Rightarrow> event" where
  "autoEvent s e = PlayerAutoCashedOut (fst e) (multiplier s)
                     (js_mul (bet (snd e)) (JNum (multiplier s))) (bet (snd e))"

fun quietEvent :: "event \<Rightarrow> bool" where
  "quietEvent (PlayerAutoCashedOut q m w b) = False"
| "quietEvent (RoundSettled m ls ps) = False"
| "quietEvent _ = True"

subsection \<open>Concrete engines and inputs\<close>

text \<open>
  An engine that has been started and is waiting, and the same engine after two bets,
  the end of the wait and the end of the countdown: flying, at multiplier 1.
\<close>

definition example_waiting :: engine where
  "example_waiting = start 0.5 (GameEngine 1000)"

definition example_flying :: engine where
  "example_flying =
     snd (run [PlaceBet ''p1'' (JNum 100) None 1500,
               PlaceBet ''p2'' (JNum 50) (Some (JNum 2)) 1600,
               TimeoutFires 0 6000 6000,
               TimeoutFires 0 9000 9001] example_waiting)"


definition example_flight :: "input list" where
  "example_flight =
     [IntervalFires 14000 14000 14000 0.5,
      CashOut ''p1'',
      CashOut ''p1'',
      ForceCrash ''admin_override'' 14050]"

definition example_removed_flight :: "input list" where
  "example_removed_flight = [RemovePlayer ''p1'', ForceCrash ''admin_override'' 9500]"

text \<open>
  Inputs of a whole round, for an engine that waits at clock reading \<open>b\<close>: the wait and
  the countdown end, the flight crashes on its first tick, 100 ms after its start (the
  random draw is 0), and the pause after the crash ends. The same with an
  administrator ending the flight instead of the tick. Then rounds of the first kind
  one after the other, 21 of them, and 21 rounds of which the first and the last are
  ended by the administrator.
\<close>

definition tick_round :: "int \<Rightarrow> input list" where
  "tick_round b =
     [TimeoutFires 0 (b + 5000) (b + 5000),
      TimeoutFires 0 (b + 8000) (b + 8001),
      IntervalFires (b + 8100) (b + 8100) (b + 8100) 0,
      TimeoutFires 0.5 (b + 10100) (b + 10100)]"

definition forced_round :: "int \<Rightarrow> input list" where
  "forced_round b =
     [TimeoutFires 0 (b + 5000) (b + 5000),
      TimeoutFires 0 (b + 8000) (b + 8001),
      ForceCrash ''admin_override'' (b + 8100),
      TimeoutFires 0.5 (b + 10100) (b + 10100)]"

definition tick_rounds :: "nat list \<Rightarrow> input list" where
  "tick_rounds ks = concat (map (\<lambda>k. tick_round (1000 + 10100 * int k)) ks)"

definition example_21_rounds :: "input list" where
  "example_21_rounds = tick_rounds [0..<21]"

definition example_21_mixed :: "input list" where
  "example_21_mixed =
     forced_round 1000 @ tick_rounds [1..<20] @ forced_round (1000 + 10100 * 20)"

text \<open>
  The engine waits for the next round: the pending timeout is the one that starts the
  countdown, and the growth law is the constructor's.
\<close>

definition awaitingRound :: "engine \<Rightarrow> bool" where
  "awaitingRound s =
     ((case stateTimeout s of Some (StartCountdown, d) \<Rightarrow> True | _ \<Rightarrow> False)
      \<and> growth s = growth (GameEngine 0))"

section \<open>Properties\<close>

subsection \<open>Multiplier\<close>

lemma calculateMultiplier_mono:
  assumes "0 \<le> rate (growth s)" and "t1 \<le> t2"
  shows "calculateMultiplier s t1 \<le> calculateMultiplier s t2"
proof -
  have "rate (growth s) * t1 \<le> rate (growth s) * t2"
    by (rule mult_left_mono [OF assms(2) assms(1)])
  then have "exp (rate (growth s) * t1) \<le> exp (rate (growth s) * t2)"
    by simp
  then show ?thesis
    unfolding calculateMultiplier_def Let_def by linarith
qed

text \<open>
  C4. With the growth parameters the constructor sets (rate 0.2, floor 1.0, cap 250),
  which no method changes, \<open>calculateMultiplier\<close> is the specification's
  \<open>clamp(exp(rate \<times> elapsed), 1.0, cap)\<close>; its value lies between 1.00 and the cap at
  every elapsed time, and it does not decrease when the elapsed time grows.
\<close>

theorem C4_multiplier_clamped_monotone:
  assumes "growth s = growth (GameEngine now)"
  shows "calculateMultiplier s t = spec_multiplier (rate (growth s)) (capMultiplier (growth s)) t
       \<and> 1.00 \<le> calculateMultiplier s t
       \<and> calculateMultiplier s t \<le> capMultiplier (growth s)
       \<and> (t1 \<le> t2 \<longrightarrow> calculateMultiplier s t1 \<le> calculateMultiplier s t2)"
proof -
  have g: "rate (growth s) = 0.2" "minMultiplier (growth s) = 1" "capMultiplier (growth s) = 250"
    using assms by (simp_all add: GameEngine_def)
  have eq: "calculateMultiplier s t = spec_multiplier (rate (growth s)) (capMultiplier (growth s)) t"
    unfolding calculateMultiplier_def spec_multiplier_def spec_clamp_def Let_def g
    by (simp add: min_def max_def)
  have bounds: "1.00 \<le> calculateMultiplier s t \<and> calculateMultiplier s t \<le> capMultiplier (growth s)"
    unfolding calculateMultiplier_def Let_def g by (simp add: min_def max_def)
  have mono: "calculateMultiplier s t1 \<le> calculateMultiplier s t2" if "t1 \<le> t2"
    using that by (intro calculateMultiplier_mono) (simp_all add: g)
  from eq bounds mono show ?thesis by blast
qed

theorem C4_multiplier_witness:
  "growth (GameEngine 0) = growth (GameEngine 0)
   \<and> calculateMultiplier (GameEngine 0) 0 = 1
   \<and> (0::real) \<le> 5
   \<and> calculateMultiplier (GameEngine 0) 0 \<le> calculateMultiplier (GameEngine 0) 5
   \<and> calculateMultiplier (GameEngine 0) 5 \<le> 250"
proof -
  have one: "calculateMultiplier (GameEngine 0) 0 = 1"
    by (simp add: calculateMultiplier_def GameEngine_def)
  have cap: "capMultiplier (growth (GameEngine 0)) = 250"
    by (simp add: GameEngine_def)
  from C4_multiplier_clamped_monotone [of "GameEngine 0" 0 5 0 5, OF refl] one cap
  show ?thesis by simp
qed

subsection \<open>Crash probability\<close>

lemma crashChance_mono:
  assumes "e1 \<le> e2" and "m1 \<le> m2"
  shows "crashChance e1 m1 \<le> crashChance e2 m2"
proof -
  let ?t = "\<lambda>e::real. if e > 30 then (e - 30) * 0.0006 else 0"
  let ?u = "\<lambda>m::real. if m > 5 then (m - 5) * 0.0015 else 0"
  have t: "?t e1 \<le> ?t e2" using assms(1) by auto
  have u: "?u m1 \<le> ?u m2" using assms(2) by auto
  have eq: "crashChance e m = min (0.0008 + ?t e + ?u m) 0.08" for e m
    by (simp add: crashChance_def Let_def)
  show ?thesis unfolding eq using t u by (intro min.mono) linarith+
qed

lemma crashChance_bounds: "0 \<le> crashChance e m \<and> crashChance e m \<le> 0.08"
proof -
  have t: "0 \<le> (if e > 30 then (e - 30) * 0.0006 else 0)" by simp
  have u: "0 \<le> (if m > 5 then (m - 5) * 0.0015 else 0)" by simp
  have eq: "crashChance e m =
      min (0.0008 + (if e > 30 then (e - 30) * 0.0006 else 0)
                  + (if m > 5 then (m - 5) * 0.0015 else 0)) 0.08"
    by (simp add: crashChance_def Let_def)
  show ?thesis unfolding eq using t u by (auto simp: min_def)
qed

text \<open>
  C5. \<open>shouldCrash\<close> returns \<open>Math.random() < crashChance\<close>, and the \<open>crashChance\<close> it ends
  with, as a function of the elapsed seconds and the multiplier, lies in [0, 1], is at
  most 0.08, and does not decrease when the elapsed time or the multiplier grows (for
  elapsed \<ge> 0 and multiplier \<ge> 1, and in fact for all real inputs).
\<close>

theorem C5_crash_probability_bounded_monotone:
  assumes "0 \<le> e" and "1 \<le> m"
  shows "shouldCrash s now rnd mult = (rnd < crashChance (elapsedSince (startTime s) now) mult)
       \<and> 0 \<le> crashChance e m \<and> crashChance e m \<le> 1 \<and> crashChance e m \<le> 0.08
       \<and> (e \<le> e' \<longrightarrow> crashChance e m \<le> crashChance e' m)
       \<and> (m \<le> m' \<longrightarrow> crashChance e m \<le> crashChance e m')"
proof -
  have b: "0 \<le> crashChance e m" "crashChance e m \<le> 0.08"
    using crashChance_bounds [of e m] by simp_all
  have "(0.08::real) \<le> 1" by simp
  with b(2) have "crashChance e m \<le> 1" by (rule order_trans)
  moreover have "crashChance e m \<le> crashChance e' m" if "e \<le> e'"
    using that by (intro crashChance_mono) simp_all
  moreover have "crashChance e m \<le> crashChance e m'" if "m \<le> m'"
    using that by (intro crashChance_mono) simp_all
  ultimately show ?thesis
    using b by (simp add: shouldCrash_def)
qed

theorem C5_crash_probability_witness:
  "(0::real) \<le> 40 \<and> (1::real) \<le> 10
   \<and> crashChance 40 10 = 0.0143
   \<and> crashChance 40 10 \<le> crashChance 50 10
   \<and> crashChance 40 10 \<le> crashChance 40 20
   \<and> crashChance 200 100 = 0.08"
proof -
  have v: "crashChance 40 10 = 0.0143" "crashChance 200 100 = 0.08"
    by (simp_all add: crashChance_def Let_def)
  from C5_crash_probability_bounded_monotone [of 40 10 "GameEngine 0" 0 0 1 50 20] v
  show ?thesis by simp
qed

subsection \<open>The two concrete engines, evaluated\<close>

lemmas lifecycle_defs =
  start_def GameEngine_def scheduleNextGame_def getRandomWaitTime_def emit_def
  placeBet_def canPlaceBet_def thresholdRejected_def timeoutFires_def startCountdown_def
  startGame_def startGameLoop_def buildMultiplierPayload_def Let_def

lemma example_waiting_facts:
  "state example_waiting = WAITING"
  "activePlayers example_waiting = []"
  "totalBets (stats example_waiting) = JNum 0"
  by (simp_all add: example_waiting_def lifecycle_defs)

lemma example_flying_facts:
  "state example_flying = FLYING"
  "multiplier example_flying = 1"
  "cashedOutPlayers example_flying = {}"
  "stateTimeout example_flying = None"
  "gameLoopInterval example_flying = True"
  "startTime example_flying = Some 9000"
  "activePlayers example_flying =
     [(''p1'', \<lparr>bet = JNum 100, autoCashOut = None, hasWon = False, placedAt = 1500\<rparr>),
      (''p2'', \<lparr>bet = JNum 50, autoCashOut = Some (JNum 2), hasWon = False, placedAt = 1600\<rparr>)]"
  by (simp_all add: example_flying_def example_waiting_def lifecycle_defs)

lemma hasWager_iff: "hasWager pid s = (map_of (activePlayers s) pid \<noteq> None)"
  by (simp add: hasWager_def map_of_eq_None_iff)

subsection \<open>Placing a bet\<close>

text \<open>
  C2, as amended. \<open>placeBet\<close> returns \<open>true\<close> exactly when the state is WAITING or
  STARTING and the threshold passes \<open>autoCashOut && autoCashOut < 1.01\<close>, that is, when
  the threshold is absent, falsy (0 or NaN) or not below 1.01. The amount is not
  looked at. A rejected call returns \<open>false\<close> and leaves the engine as it was.
\<close>

theorem C2_placeBet_gating:
  "fst (placeBet pid amount aco now s)
     = ((state s = WAITING \<or> state s = STARTING) \<and> \<not> thresholdRejected aco)
   \<and> (\<not> fst (placeBet pid amount aco now s) \<longrightarrow> snd (placeBet pid amount aco now s) = s)
   \<and> thresholdRejected aco
       = (case aco of None \<Rightarrow> False
          | Some (JNum t) \<Rightarrow> t \<noteq> 0 \<and> t < 1.01
          | Some JNaN \<Rightarrow> False
          | Some JPosInf \<Rightarrow> False
          | Some JNegInf \<Rightarrow> True)"
  by (auto simp add: placeBet_def canPlaceBet_def Let_def thresholdRejected_def
           split: option.splits jsnum.splits)

theorem C2_placeBet_gating_witness:
  "fst (placeBet ''p1'' (JNum 100) (Some (JNum 2)) 1500 example_waiting)
   \<and> \<not> fst (placeBet ''p1'' (JNum 100) (Some (JNum 1)) 1500 example_waiting)
   \<and> snd (placeBet ''p1'' (JNum 100) (Some (JNum 1)) 1500 example_waiting) = example_waiting
   \<and> \<not> fst (placeBet ''p1'' (JNum 100) None 9500 example_flying)"
  using C2_placeBet_gating [of "''p1''" "JNum 100" "Some (JNum 2)" 1500 example_waiting]
        C2_placeBet_gating [of "''p1''" "JNum 100" "Some (JNum 1)" 1500 example_waiting]
        C2_placeBet_gating [of "''p1''" "JNum 100" None 9500 example_flying]
  by (simp add: example_waiting_facts example_flying_facts)

text \<open>
  C2 as stated fails: while WAITING, a negative amount, an infinite amount, and a
  threshold of 0 are each accepted.
\<close>

theorem C2_placeBet_counterexample:
  "fst (placeBet ''p1'' (JNum (- 5)) None 1500 example_waiting)
   \<and> fst (placeBet ''p1'' JPosInf None 1500 example_waiting)
   \<and> fst (placeBet ''p1'' (JNum 100) (Some (JNum 0)) 1500 example_waiting)"
  by (simp add: placeBet_def canPlaceBet_def thresholdRejected_def Let_def example_waiting_facts)

text \<open>
  C9. A successful \<open>placeBet\<close> for a player who has a wager puts the new wager in the
  place of the old one (no second entry, the other players untouched) and adds the new
  amount to \<open>stats.totalBets\<close> without taking the old amount off; after two successful
  calls the total has grown by both amounts and the wager is the second one.
\<close>

theorem C9_rebet_replaces_and_accumulates:
  "(map_of (activePlayers s) pid = Some old \<and> fst (placeBet pid amount aco now s) \<longrightarrow>
      map_of (activePlayers (snd (placeBet pid amount aco now s))) pid
        = Some \<lparr>bet = amount, autoCashOut = aco, hasWon = False, placedAt = now\<rparr>
      \<and> map fst (activePlayers (snd (placeBet pid amount aco now s)))
          = map fst (activePlayers s)
      \<and> (\<forall>q. q \<noteq> pid \<longrightarrow>
            map_of (activePlayers (snd (placeBet pid amount aco now s))) q
              = map_of (activePlayers s) q)
      \<and> totalBets (stats (snd (placeBet pid amount aco now s)))
          = js_add (totalBets (stats s)) amount)
   \<and> (fst (placeBet pid a1 t1 n1 s)
        \<and> fst (placeBet pid a2 t2 n2 (snd (placeBet pid a1 t1 n1 s))) \<longrightarrow>
      map_of (activePlayers (snd (placeBet pid a2 t2 n2 (snd (placeBet pid a1 t1 n1 s))))) pid
        = Some \<lparr>bet = a2, autoCashOut = t2, hasWon = False, placedAt = n2\<rparr>
      \<and> totalBets (stats (snd (placeBet pid a2 t2 n2 (snd (placeBet pid a1 t1 n1 s)))))
          = js_add (js_add (totalBets (stats s)) a1) a2)"
proof -
  have single:
    "map_of (activePlayers (snd (placeBet p a t n u))) p
        = Some \<lparr>bet = a, autoCashOut = t, hasWon = False, placedAt = n\<rparr>
     \<and> (p \<in> set (map fst (activePlayers u)) \<longrightarrow>
          map fst (activePlayers (snd (placeBet p a t n u))) = map fst (activePlayers u))
     \<and> (\<forall>q. q \<noteq> p \<longrightarrow>
          map_of (activePlayers (snd (placeBet p a t n u))) q = map_of (activePlayers u) q)
     \<and> totalBets (stats (snd (placeBet p a t n u))) = js_add (totalBets (stats u)) a"
    if "fst (placeBet p a t n u)" for p a t n u
  proof -
    have u': "snd (placeBet p a t n u)
        = u\<lparr>activePlayers := AList.update p
                \<lparr>bet = a, autoCashOut = t, hasWon = False, placedAt = n\<rparr> (activePlayers u),
             stats := (stats u)\<lparr>totalBets := js_add (totalBets (stats u)) a\<rparr>\<rparr>"
      using that by (simp add: placeBet_def Let_def split: if_splits)
    show ?thesis
      by (subst u')+ (simp add: update_conv' update_keys)
  qed
  have first: "map_of (activePlayers s) pid = Some old \<Longrightarrow> pid \<in> set (map fst (activePlayers s))"
    by (metis map_of_eq_None_iff option.distinct(1) set_map)
  have two:
    "totalBets (stats (snd (placeBet pid a2 t2 n2 (snd (placeBet pid a1 t1 n1 s)))))
       = js_add (js_add (totalBets (stats s)) a1) a2"
    if "fst (placeBet pid a1 t1 n1 s)"
      and "fst (placeBet pid a2 t2 n2 (snd (placeBet pid a1 t1 n1 s)))"
    using single [OF that(1)] single [OF that(2)] by simp
  show ?thesis
    using single [of pid amount aco now s] single [of pid a2 t2 n2 "snd (placeBet pid a1 t1 n1 s)"]
      first two by blast
qed

theorem C9_rebet_witness:
  "fst (placeBet ''p1'' (JNum 100) (Some (JNum 2)) 1500 example_waiting)
   \<and> map_of (activePlayers (snd (placeBet ''p1'' (JNum 100) (Some (JNum 2)) 1500 example_waiting)))
        ''p1''
       = Some \<lparr>bet = JNum 100, autoCashOut = Some (JNum 2), hasWon = False, placedAt = 1500\<rparr>
   \<and> fst (placeBet ''p1'' (JNum 30) None 1700
            (snd (placeBet ''p1'' (JNum 100) (Some (JNum 2)) 1500 example_waiting)))
   \<and> map_of (activePlayers (snd (placeBet ''p1'' (JNum 30) None 1700
            (snd (placeBet ''p1'' (JNum 100) (Some (JNum 2)) 1500 example_waiting))))) ''p1''
       = Some \<lparr>bet = JNum 30, autoCashOut = None, hasWon = False, placedAt = 1700\<rparr>
   \<and> map fst (activePlayers (snd (placeBet ''p1'' (JNum 30) None 1700
            (snd (placeBet ''p1'' (JNum 100) (Some (JNum 2)) 1500 example_waiting)))))
       = [''p1'']
   \<and> totalBets (stats (snd (placeBet ''p1'' (JNum 30) None 1700
            (snd (placeBet ''p1'' (JNum 100) (Some (JNum 2)) 1500 example_waiting)))))
       = JNum 130"
proof -
  let ?w1 = "\<lparr>bet = JNum 100, autoCashOut = Some (JNum 2), hasWon = False, placedAt = 1500\<rparr>"
  let ?s1 = "snd (placeBet ''p1'' (JNum 100) (Some (JNum 2)) 1500 example_waiting)"
  have h1: "fst (placeBet ''p1'' (JNum 100) (Some (JNum 2)) 1500 example_waiting)"
    by (simp add: placeBet_def canPlaceBet_def thresholdRejected_def Let_def example_waiting_facts)
  have s1: "activePlayers ?s1 = [(''p1'', ?w1)]" "totalBets (stats ?s1) = JNum 100"
    by (simp_all add: placeBet_def canPlaceBet_def thresholdRejected_def Let_def
          example_waiting_facts)
  have h0: "map_of (activePlayers ?s1) ''p1'' = Some ?w1"
    by (simp add: s1)
  have h2: "fst (placeBet ''p1'' (JNum 30) None 1700 ?s1)"
    by (simp add: placeBet_def canPlaceBet_def thresholdRejected_def Let_def example_waiting_facts)
  from C9_rebet_replaces_and_accumulates
         [of ?s1 "''p1''" ?w1 "JNum 30" None 1700 "JNum 0" None 0 "JNum 0" None 0]
       C9_rebet_replaces_and_accumulates
         [of example_waiting "''p1''" ?w1 "JNum 0" None 0
             "JNum 100" "Some (JNum 2)" 1500 "JNum 30" None 1700] h0 h1 h2
  show ?thesis by (simp add: example_waiting_facts s1)
qed

subsection \<open>Cashing out\<close>

text \<open>
  C3. \<open>cashOut\<close> succeeds exactly when the state is FLYING and the player has a wager
  that is not in \<open>cashedOutPlayers\<close>. Each of the three failures has its own reason.
  A success records the player as cashed out, sets \<open>hasWon\<close>, and returns the
  multiplier with \<open>winAmount = bet * multiplier\<close>; the same call made again fails with
  "Already cashed out" and changes nothing.
\<close>

theorem C3_cashOut_gating:
  "succeeded (fst (cashOut pid s))
     = (state s = FLYING \<and> hasWager pid s \<and> pid \<notin> cashedOutPlayers s)
   \<and> (state s \<noteq> FLYING \<longrightarrow>
        cashOut pid s = (CashOutError ''Cannot cash out at this time'', s))
   \<and> (state s = FLYING \<and> \<not> hasWager pid s \<longrightarrow>
        cashOut pid s = (CashOutError ''No active bet found'', s))
   \<and> (state s = FLYING \<and> hasWager pid s \<and> pid \<in> cashedOutPlayers s \<longrightarrow>
        cashOut pid s = (CashOutError ''Already cashed out'', s))
   \<and> distinct [''Cannot cash out at this time'', ''No active bet found'', ''Already cashed out'']
   \<and> (state s = FLYING \<and> map_of (activePlayers s) pid = Some pd \<and> pid \<notin> cashedOutPlayers s \<longrightarrow>
        fst (cashOut pid s)
          = CashOutOk (multiplier s) (js_mul (bet pd) (JNum (multiplier s))) (bet pd)
        \<and> (\<forall>b. bet pd = JNum b \<longrightarrow>
             fst (cashOut pid s) = CashOutOk (multiplier s) (JNum (b * multiplier s)) (JNum b))
        \<and> pid \<in> cashedOutPlayers (snd (cashOut pid s))
        \<and> map_of (activePlayers (snd (cashOut pid s))) pid = Some (pd\<lparr>hasWon := True\<rparr>)
        \<and> state (snd (cashOut pid s)) = FLYING
        \<and> cashOut pid (snd (cashOut pid s))
            = (CashOutError ''Already cashed out'', snd (cashOut pid s)))"
proof -
  have a: "succeeded (fst (cashOut pid s))
     = (state s = FLYING \<and> hasWager pid s \<and> pid \<notin> cashedOutPlayers s)"
    by (auto simp add: cashOut_def succeeded_def Let_def hasWager_iff split: option.splits)
  have b: "state s \<noteq> FLYING \<longrightarrow>
        cashOut pid s = (CashOutError ''Cannot cash out at this time'', s)"
    by (simp add: cashOut_def)
  have c: "state s = FLYING \<and> \<not> hasWager pid s \<longrightarrow>
        cashOut pid s = (CashOutError ''No active bet found'', s)"
    by (simp add: cashOut_def hasWager_iff)
  have d: "state s = FLYING \<and> hasWager pid s \<and> pid \<in> cashedOutPlayers s \<longrightarrow>
        cashOut pid s = (CashOutError ''Already cashed out'', s)"
    by (auto simp add: cashOut_def hasWager_iff)
  have e: "distinct [''Cannot cash out at this time'', ''No active bet found'', ''Already cashed out'']"
    by simp
  have f: "fst (cashOut pid s)
          = CashOutOk (multiplier s) (js_mul (bet pd) (JNum (multiplier s))) (bet pd)
        \<and> (\<forall>b. bet pd = JNum b \<longrightarrow>
             fst (cashOut pid s) = CashOutOk (multiplier s) (JNum (b * multiplier s)) (JNum b))
        \<and> pid \<in> cashedOutPlayers (snd (cashOut pid s))
        \<and> map_of (activePlayers (snd (cashOut pid s))) pid = Some (pd\<lparr>hasWon := True\<rparr>)
        \<and> state (snd (cashOut pid s)) = FLYING
        \<and> cashOut pid (snd (cashOut pid s))
            = (CashOutError ''Already cashed out'', snd (cashOut pid s))"
    if h: "state s = FLYING" "map_of (activePlayers s) pid = Some pd" "pid \<notin> cashedOutPlayers s"
  proof -
    let ?s' = "snd (cashOut pid s)"
    have s': "?s' = s\<lparr>cashedOutPlayers := insert pid (cashedOutPlayers s),
                      activePlayers :=
                        AList.map_entry pid (\<lambda>d. d\<lparr>hasWon := True\<rparr>) (activePlayers s),
                      stats := (stats s)\<lparr>totalPayouts :=
                        js_add (totalPayouts (stats s)) (js_mul (bet pd) (JNum (multiplier s)))\<rparr>\<rparr>"
      using h by (simp add: cashOut_def Let_def)
    have r: "fst (cashOut pid s)
          = CashOutOk (multiplier s) (js_mul (bet pd) (JNum (multiplier s))) (bet pd)"
      using h by (simp add: cashOut_def Let_def)
    have m: "map_of (activePlayers ?s') pid = Some (pd\<lparr>hasWon := True\<rparr>)"
      using h by (simp add: s' map_of_map_entry)
    have again: "cashOut pid ?s' = (CashOutError ''Already cashed out'', ?s')"
      using m h(1) by (simp add: cashOut_def [of pid ?s']) (simp add: s')
    show ?thesis using r m again h(1) by (auto simp add: s')
  qed
  from a b c d e f show ?thesis by blast
qed

theorem C3_cashOut_witness:
  "state example_flying = FLYING
   \<and> map_of (activePlayers example_flying) ''p1''
       = Some \<lparr>bet = JNum 100, autoCashOut = None, hasWon = False, placedAt = 1500\<rparr>
   \<and> ''p1'' \<notin> cashedOutPlayers example_flying
   \<and> fst (cashOut ''p1'' example_flying) = CashOutOk 1 (JNum 100) (JNum 100)
   \<and> fst (cashOut ''p1'' (snd (cashOut ''p1'' example_flying)))
       = CashOutError ''Already cashed out''
   \<and> fst (cashOut ''p3'' example_flying) = CashOutError ''No active bet found''
   \<and> fst (cashOut ''p1'' example_waiting) = CashOutError ''Cannot cash out at this time''"
  using C3_cashOut_gating [of "''p1''" example_flying
          "\<lparr>bet = JNum 100, autoCashOut = None, hasWon = False, placedAt = 1500\<rparr>"]
        C3_cashOut_gating [of "''p3''" example_flying undefined]
        C3_cashOut_gating [of "''p1''" example_waiting undefined]
  by (simp add: example_flying_facts example_waiting_facts hasWager_def)

subsection \<open>What a crash does\<close>

lemma finalizeBets_loop_eq:
  "finalizeBets_loop es co acc =
     \<lparr> participants = participants acc @ map (participantOf co) es,
       losers = losers acc @ map loserOf (filter (\<lambda>e. fst e \<notin> co) es) \<rparr>"
  by (induction es co acc rule: finalizeBets_loop.induct)
     (simp_all add: Let_def participantOf_def loserOf_def)

lemma finalizeBets_eq:
  "finalizeBets s =
     (\<lparr> participants = map (participantOf (cashedOutPlayers s)) (activePlayers s),
        losers = map loserOf (filter (\<lambda>e. fst e \<notin> cashedOutPlayers s) (activePlayers s)) \<rparr>,
      s\<lparr>activePlayers := [], cashedOutPlayers := {}\<rparr>)"
  by (simp add: finalizeBets_def finalizeBets_loop_eq)

lemma crashGame_fields:
  "state (crashGame t now s) = CRASHED"
  "multiplier (crashGame t now s) = multiplier s"
  "activePlayers (crashGame t now s) = []"
  "cashedOutPlayers (crashGame t now s) = {}"
  "stateTimeout (crashGame t now s) = Some (ScheduleNextGame, 2000)"
  "gameLoopInterval (crashGame t now s) = False"
  "config (crashGame t now s) = config s"
  "growth (crashGame t now s) = growth s"
  "history (crashGame t now s) = history (addToHistory (multiplier s) s)"
  "emitted (crashGame t now s) = emitted s @ crashSnapshot now s @
      [GameStateCrashed CRASHED (multiplier s),
       RoundSettled (multiplier s)
         (map loserOf (filter (\<lambda>e. fst e \<notin> cashedOutPlayers s) (activePlayers s)))
         (map (participantOf (cashedOutPlayers s)) (activePlayers s))]"
  by (simp_all add: crashGame_def Let_def finalizeBets_eq emit_def clearTimers_def
        updateAverageMultiplier_def addToHistory_def crashSnapshot_def split: option.splits)

lemma crashGame_reason: "crashGame t now s = crashGame t' now s"
  by (simp add: crashGame_def)


lemma eventsSince_append: "emitted s' = emitted s @ evs \<Longrightarrow> eventsSince s s' = evs"
  by (simp add: eventsSince_def)

lemma toFixed_one: "toFixed d 1 = 1"
proof -
  have "\<lfloor>(10::real) ^ d + 1 / 2\<rfloor> = 10 ^ d"
  proof -
    have "(10::real) ^ d + 1 / 2 = of_int (10 ^ d) + 1 / 2" by simp
    then show ?thesis by (simp only: floor_add_int) simp
  qed
  then show ?thesis by (simp add: toFixed_def)
qed

subsection \<open>Forcing a crash\<close>

text \<open>
  C6, as amended. \<open>forceCrash\<close> fails, changing nothing, when the state is not FLYING.
  When it is FLYING the engine is CRASHED on return, the multiplier is the one the
  engine held at the call and is the final multiplier of the events and of the result,
  and \<open>round_settled\<close> lists every wager as a participant, with \<open>hasWon\<close> telling
  whether it was cashed out, and lists as losers exactly the wagers that were not. A
  second \<open>forceCrash\<close> then fails. The reason is in no event and not in the result:
  another reason gives the same result and the same engine.
\<close>

theorem C6_forceCrash:
 "(state s \<noteq> FLYING \<longrightarrow>
     forceCrash reason now s = (ForceCrashError ''Game is not currently flying'', s))
  \<and> (state s = FLYING \<longrightarrow>
       fst (forceCrash reason now s) = ForceCrashOk (multiplier s)
       \<and> state (snd (forceCrash reason now s)) = CRASHED
       \<and> multiplier (snd (forceCrash reason now s)) = multiplier s
       \<and> eventsSince s (snd (forceCrash reason now s))
           = crashSnapshot now s @
             [GameStateCrashed CRASHED (multiplier s),
              RoundSettled (multiplier s)
                (map loserOf (filter (\<lambda>e. fst e \<notin> cashedOutPlayers s) (activePlayers s)))
                (map (participantOf (cashedOutPlayers s)) (activePlayers s))]
       \<and> forceCrash reason' now' (snd (forceCrash reason now s))
           = (ForceCrashError ''Game is not currently flying'', snd (forceCrash reason now s))
       \<and> forceCrash reason' now s = forceCrash reason now s)"
proof -
  have a: "state s \<noteq> FLYING \<longrightarrow>
     forceCrash reason now s = (ForceCrashError ''Game is not currently flying'', s)"
    by (simp add: forceCrash_def)
  have b: "fst (forceCrash reason now s) = ForceCrashOk (multiplier s)
       \<and> state (snd (forceCrash reason now s)) = CRASHED
       \<and> multiplier (snd (forceCrash reason now s)) = multiplier s
       \<and> eventsSince s (snd (forceCrash reason now s))
           = crashSnapshot now s @
             [GameStateCrashed CRASHED (multiplier s),
              RoundSettled (multiplier s)
                (map loserOf (filter (\<lambda>e. fst e \<notin> cashedOutPlayers s) (activePlayers s)))
                (map (participantOf (cashedOutPlayers s)) (activePlayers s))]
       \<and> forceCrash reason' now' (snd (forceCrash reason now s))
           = (ForceCrashError ''Game is not currently flying'', snd (forceCrash reason now s))
       \<and> forceCrash reason' now s = forceCrash reason now s" if fl: "state s = FLYING"
  proof -
    have r: "forceCrash reason now s
        = (ForceCrashOk (multiplier s), crashGame (Some reason) now s)"
      using fl by (simp add: forceCrash_def Let_def crashGame_fields)
    have r': "forceCrash reason' now s = forceCrash reason now s"
      using fl crashGame_reason [of "Some reason'" now s "Some reason"]
      by (simp add: forceCrash_def Let_def)
    have ev: "eventsSince s (crashGame (Some reason) now s)
           = crashSnapshot now s @
             [GameStateCrashed CRASHED (multiplier s),
              RoundSettled (multiplier s)
                (map loserOf (filter (\<lambda>e. fst e \<notin> cashedOutPlayers s) (activePlayers s)))
                (map (participantOf (cashedOutPlayers s)) (activePlayers s))]"
      by (rule eventsSince_append) (simp add: crashGame_fields)
    have again: "forceCrash reason' now' (crashGame (Some reason) now s)
           = (ForceCrashError ''Game is not currently flying'', crashGame (Some reason) now s)"
      by (simp add: forceCrash_def crashGame_fields)
    show ?thesis using r' ev again by (simp add: r crashGame_fields)
  qed
  from a b show ?thesis by blast
qed

theorem C6_forceCrash_witness:
  "state example_flying = FLYING
   \<and> \<not> state example_waiting = FLYING
   \<and> fst (forceCrash ''admin_override'' 9500 example_flying) = ForceCrashOk 1
   \<and> eventsSince example_flying (snd (forceCrash ''admin_override'' 9500 example_flying))
       = [MultiplierUpdate \<lparr>pl_state = CRASHED, pl_multiplier = 1, pl_displayMultiplier = 1,
             pl_time = 0.5, pl_timestamp = 9500, pl_growthRate = 0.2\<rparr>,
          GameStateCrashed CRASHED 1,
          RoundSettled 1
            [\<lparr>ls_playerId = ''p1'', ls_betAmount = JNum 100\<rparr>,
             \<lparr>ls_playerId = ''p2'', ls_betAmount = JNum 50\<rparr>]
            [\<lparr>pt_playerId = ''p1'', pt_betAmount = JNum 100, pt_autoCashOut = None,
               pt_hasWon = False\<rparr>,
             \<lparr>pt_playerId = ''p2'', pt_betAmount = JNum 50, pt_autoCashOut = Some (JNum 2),
               pt_hasWon = False\<rparr>]]
   \<and> fst (forceCrash ''admin_override'' 9501 (snd (forceCrash ''admin_override'' 9500 example_flying)))
       = ForceCrashError ''Game is not currently flying''
   \<and> fst (forceCrash ''admin_override'' 1500 example_waiting)
       = ForceCrashError ''Game is not currently flying''"
proof -
  have g: "rate (growth example_flying) = 0.2"
    by (simp add: example_flying_def example_waiting_def lifecycle_defs)
  from C6_forceCrash [of example_flying "''admin_override''" 9500 "''admin_override''" 9501]
    C6_forceCrash [of example_waiting "''admin_override''" 1500 "''admin_override''" 0]
  show ?thesis
    by (simp add: example_flying_facts example_waiting_facts crashSnapshot_def
          buildMultiplierPayload_def clearTimers_def toFixed_one loserOf_def participantOf_def g)
qed

text \<open>
  C6 as stated fails where it has the event tagged with the reason: two different
  reasons give the same result and the same engine, event log included, and the
  \<open>round_settled\<close> event holds the final multiplier and the two lists only.
\<close>

theorem C6_forceCrash_counterexample:
  "''admin_override'' \<noteq> ''maintenance''
   \<and> forceCrash ''admin_override'' 9500 example_flying
       = forceCrash ''maintenance'' 9500 example_flying
   \<and> fst (forceCrash ''admin_override'' 9500 example_flying) = ForceCrashOk 1
   \<and> last (emitted (snd (forceCrash ''admin_override'' 9500 example_flying)))
       = RoundSettled 1
            [\<lparr>ls_playerId = ''p1'', ls_betAmount = JNum 100\<rparr>,
             \<lparr>ls_playerId = ''p2'', ls_betAmount = JNum 50\<rparr>]
            [\<lparr>pt_playerId = ''p1'', pt_betAmount = JNum 100, pt_autoCashOut = None,
               pt_hasWon = False\<rparr>,
             \<lparr>pt_playerId = ''p2'', pt_betAmount = JNum 50, pt_autoCashOut = Some (JNum 2),
               pt_hasWon = False\<rparr>]"
  by (simp add: forceCrash_def Let_def crashGame_fields crashGame_reason [of "Some ''admin_override''" _ _ "Some ''maintenance''"]
        example_flying_facts loserOf_def participantOf_def)


subsection \<open>Rejected commands\<close>

text \<open>
  C8, as amended. No command has a branch that throws. A rejected \<open>cashOut\<close> returns
  \<open>{success: false, error}\<close> with the reason its cause fixes, and a rejected
  \<open>forceCrash\<close> returns \<open>{success: false, error}\<close> with its one reason; both leave
  the engine unchanged. A rejected \<open>placeBet\<close> returns the boolean \<open>false\<close> and leaves
  the engine unchanged, whichever of its two causes applies (bets closed, threshold
  below 1.01).
\<close>

theorem C8_rejections_as_values:
  "(\<not> succeeded (fst (cashOut pid s)) \<longrightarrow>
      cashOut pid s =
        (CashOutError (if state s \<noteq> FLYING then ''Cannot cash out at this time''
                       else if \<not> hasWager pid s then ''No active bet found''
                       else ''Already cashed out''), s))
   \<and> (state s \<noteq> FLYING \<longrightarrow>
        forceCrash reason now s = (ForceCrashError ''Game is not currently flying'', s))
   \<and> (state s = FLYING \<longrightarrow> fst (forceCrash reason now s) = ForceCrashOk (multiplier s))
   \<and> (\<not> canPlaceBet s \<or> thresholdRejected aco \<longrightarrow>
        placeBet pid amount aco now' s = (False, s))
   \<and> (canPlaceBet s \<and> \<not> thresholdRejected aco \<longrightarrow> fst (placeBet pid amount aco now' s))"
proof -
  have a: "\<not> succeeded (fst (cashOut pid s)) \<longrightarrow>
      cashOut pid s =
        (CashOutError (if state s \<noteq> FLYING then ''Cannot cash out at this time''
                       else if \<not> hasWager pid s then ''No active bet found''
                       else ''Already cashed out''), s)"
    by (auto simp add: cashOut_def succeeded_def Let_def hasWager_iff split: option.splits)
  have b: "state s \<noteq> FLYING \<longrightarrow>
        forceCrash reason now s = (ForceCrashError ''Game is not currently flying'', s)"
    by (simp add: forceCrash_def)
  have c: "state s = FLYING \<longrightarrow> fst (forceCrash reason now s) = ForceCrashOk (multiplier s)"
    by (simp add: forceCrash_def Let_def crashGame_fields)
  have d: "\<not> canPlaceBet s \<or> thresholdRejected aco \<longrightarrow>
        placeBet pid amount aco now' s = (False, s)"
    by (simp add: placeBet_def)
  have e: "canPlaceBet s \<and> \<not> thresholdRejected aco \<longrightarrow> fst (placeBet pid amount aco now' s)"
    by (simp add: placeBet_def Let_def)
  from a b c d e show ?thesis by blast
qed

theorem C8_rejections_witness:
  "cashOut ''p3'' example_flying = (CashOutError ''No active bet found'', example_flying)
   \<and> cashOut ''p1'' example_waiting
       = (CashOutError ''Cannot cash out at this time'', example_waiting)
   \<and> forceCrash ''admin_override'' 1500 example_waiting
       = (ForceCrashError ''Game is not currently flying'', example_waiting)
   \<and> fst (forceCrash ''admin_override'' 9500 example_flying) = ForceCrashOk 1
   \<and> placeBet ''p3'' (JNum 100) None 9500 example_flying = (False, example_flying)
   \<and> placeBet ''p1'' (JNum 100) (Some (JNum 1)) 1500 example_waiting = (False, example_waiting)
   \<and> fst (placeBet ''p1'' (JNum 100) None 1500 example_waiting)"
proof -
  have ns: "\<not> succeeded (fst (cashOut ''p3'' example_flying))"
           "\<not> succeeded (fst (cashOut ''p1'' example_waiting))"
    by (simp_all add: cashOut_def succeeded_def example_flying_facts example_waiting_facts)
  from C8_rejections_as_values [of "''p3''" example_flying "''admin_override''" 9500 None
         "JNum 100" 9500]
       C8_rejections_as_values [of "''p1''" example_waiting "''admin_override''" 1500
         "Some (JNum 1)" "JNum 100" 1500]
       C8_rejections_as_values [of "''p1''" example_waiting "''admin_override''" 1500
         None "JNum 100" 1500] ns
  show ?thesis
    by (simp add: example_flying_facts example_waiting_facts hasWager_def canPlaceBet_def
          thresholdRejected_def)
qed

text \<open>
  C8 as stated fails for \<open>placeBet\<close>: a call rejected because bets are closed and a
  call rejected because of its threshold return the same value, \<open>false\<close>, with no
  reason to read.
\<close>

theorem C8_rejections_counterexample:
  "\<not> canPlaceBet example_flying \<and> \<not> thresholdRejected None
   \<and> canPlaceBet example_waiting \<and> thresholdRejected (Some (JNum 1))
   \<and> fst (placeBet ''p1'' (JNum 100) None 9500 example_flying) = False
   \<and> fst (placeBet ''p1'' (JNum 100) (Some (JNum 1)) 1500 example_waiting) = False"
  by (simp add: placeBet_def canPlaceBet_def thresholdRejected_def
        example_flying_facts example_waiting_facts)


subsection \<open>The auto-cash-out loop, the timeouts and the tick\<close>

lemma map_fst_map_entry: "map fst (AList.map_entry k f xs) = map fst xs"
  by (induction xs) auto

lemma performAutoCashOut_eq:
  "performAutoCashOut pid pd s =
     s\<lparr>cashedOutPlayers := insert pid (cashedOutPlayers s),
       activePlayers := AList.map_entry pid (\<lambda>d. d\<lparr>hasWon := True\<rparr>) (activePlayers s),
       stats := (stats s)\<lparr>totalPayouts :=
          js_add (totalPayouts (stats s)) (js_mul (bet pd) (JNum (multiplier s)))\<rparr>,
       emitted := emitted s @ [autoEvent s (pid, pd)]\<rparr>"
  by (simp add: performAutoCashOut_def Let_def emit_def autoEvent_def)

lemma checkAutoCashOuts_loop_same:
  "state (checkAutoCashOuts_loop es s) = state s
   \<and> multiplier (checkAutoCashOuts_loop es s) = multiplier s
   \<and> startTime (checkAutoCashOuts_loop es s) = startTime s
   \<and> history (checkAutoCashOuts_loop es s) = history s
   \<and> gameLoopInterval (checkAutoCashOuts_loop es s) = gameLoopInterval s
   \<and> stateTimeout (checkAutoCashOuts_loop es s) = stateTimeout s
   \<and> config (checkAutoCashOuts_loop es s) = config s
   \<and> growth (checkAutoCashOuts_loop es s) = growth s
   \<and> map fst (activePlayers (checkAutoCashOuts_loop es s)) = map fst (activePlayers s)"
  by (induction es s rule: checkAutoCashOuts_loop.induct)
     (simp_all add: performAutoCashOut_eq map_fst_map_entry)

lemma checkAutoCashOuts_loop_fired:
  "\<exists>fired. emitted (checkAutoCashOuts_loop es s) = emitted s @ map (autoEvent s) fired
      \<and> cashedOutPlayers (checkAutoCashOuts_loop es s) = cashedOutPlayers s \<union> fst ` set fired
      \<and> distinct (map fst fired)
      \<and> fst ` set fired \<inter> cashedOutPlayers s = {}
      \<and> set fired \<subseteq> set es
      \<and> (\<forall>e \<in> set fired. thresholdSet (autoCashOut (snd e)))"
proof (induction es s rule: checkAutoCashOuts_loop.induct)
  case (1 s)
  show ?case by (rule exI [of _ "[]"]) simp
next
  case (2 pid pd rest s)
  show ?case
  proof (cases "autoCashOutDue pid pd s")
    case False
    with 2 obtain fired where f:
      "emitted (checkAutoCashOuts_loop rest s) = emitted s @ map (autoEvent s) fired"
      "cashedOutPlayers (checkAutoCashOuts_loop rest s) = cashedOutPlayers s \<union> fst ` set fired"
      "distinct (map fst fired)" "fst ` set fired \<inter> cashedOutPlayers s = {}"
      "set fired \<subseteq> set rest" "\<forall>e \<in> set fired. thresholdSet (autoCashOut (snd e))"
      by auto
    show ?thesis
      by (rule exI [of _ fired]) (use False f in auto)
  next
    case True
    let ?s1 = "performAutoCashOut pid pd s"
    from True 2 obtain fired where f:
      "emitted (checkAutoCashOuts_loop rest ?s1) = emitted ?s1 @ map (autoEvent ?s1) fired"
      "cashedOutPlayers (checkAutoCashOuts_loop rest ?s1) = cashedOutPlayers ?s1 \<union> fst ` set fired"
      "distinct (map fst fired)" "fst ` set fired \<inter> cashedOutPlayers ?s1 = {}"
      "set fired \<subseteq> set rest" "\<forall>e \<in> set fired. thresholdSet (autoCashOut (snd e))"
      by auto
    have ev: "autoEvent ?s1 = autoEvent s"
      by (rule ext) (simp add: autoEvent_def performAutoCashOut_eq)
    have due: "pid \<notin> cashedOutPlayers s" "thresholdSet (autoCashOut pd)"
      using True by (auto simp: autoCashOutDue_def thresholdSet_def split: option.splits)
    have co1: "cashedOutPlayers ?s1 = insert pid (cashedOutPlayers s)"
      and em1: "emitted ?s1 = emitted s @ [autoEvent s (pid, pd)]"
      by (simp_all add: performAutoCashOut_eq)
    show ?thesis
    proof (rule exI [of _ "(pid, pd) # fired"], intro conjI)
      show "emitted (checkAutoCashOuts_loop ((pid, pd) # rest) s)
              = emitted s @ map (autoEvent s) ((pid, pd) # fired)"
        using True f(1) by (simp add: ev em1)
      show "cashedOutPlayers (checkAutoCashOuts_loop ((pid, pd) # rest) s)
              = cashedOutPlayers s \<union> fst ` set ((pid, pd) # fired)"
        using True f(2) by (simp add: co1)
      show "distinct (map fst ((pid, pd) # fired))"
        using f(3) f(4) by (auto simp: co1)
      show "fst ` set ((pid, pd) # fired) \<inter> cashedOutPlayers s = {}"
        using f(4) due(1) by (auto simp: co1)
      show "set ((pid, pd) # fired) \<subseteq> set ((pid, pd) # rest)"
        using f(5) by auto
      show "\<forall>e \<in> set ((pid, pd) # fired). thresholdSet (autoCashOut (snd e))"
        using f(6) due(2) by simp
    qed
  qed
qed

lemma quiet_projections:
  assumes "list_all quietEvent evs"
  shows "finalMultipliers evs = []" "autoCashOuts p evs = 0" "lossesListed p evs = 0"
    "settlements evs = 0" "\<not> participated p evs"
  using assms
  by (induction evs; simp add: finalMultipliers_def autoCashOuts_def lossesListed_def
        settlements_def participated_def; rename_tac e es; case_tac e; simp)+

lemma startCountdown_eq:
  "startCountdown s =
     s\<lparr>state := STARTING, cashedOutPlayers := {},
       emitted := emitted s @
         [GameStateStarting STARTING (real_of_int (countdownTime (config s)) / 1000)],
       stateTimeout := Some (StartGame, countdownTime (config s))\<rparr>"
  by (simp add: startCountdown_def Let_def emit_def)

lemma scheduleNextGame_eq:
  "scheduleNextGame rnd s =
     s\<lparr>state := WAITING,
       emitted := emitted s @
         [GameStateWaiting WAITING (real_of_int (getRandomWaitTime rnd s) / 1000)],
       stateTimeout := Some (StartCountdown, getRandomWaitTime rnd s)\<rparr>"
  by (simp add: scheduleNextGame_def Let_def emit_def getRandomWaitTime_def)

lemma startGame_eq:
  "startGame now np s =
     s\<lparr>gameId := gameId s + 1, state := FLYING, multiplier := 1, startTime := Some now,
       cashedOutPlayers := {}, lastPredictionBroadcast := 0,
       emitted := emitted s @
         [GameStateSnapshot \<lparr>pl_state = FLYING, pl_multiplier = 1, pl_displayMultiplier = 1,
            pl_time = 0, pl_timestamp = np, pl_growthRate = rate (growth s)\<rparr>],
       gameLoopInterval := True\<rparr>"
  by (simp add: startGame_def Let_def emit_def startGameLoop_def buildMultiplierPayload_def
        toFixed_one)

lemma timeoutFires_cases:
  "(stateTimeout s = None \<and> timeoutFires rnd n1 n2 s = s)
   \<or> (\<exists>d. stateTimeout s = Some (StartCountdown, d)
          \<and> timeoutFires rnd n1 n2 s = startCountdown (s\<lparr>stateTimeout := None\<rparr>))
   \<or> (\<exists>d. stateTimeout s = Some (StartGame, d)
          \<and> timeoutFires rnd n1 n2 s = startGame n1 n2 (s\<lparr>stateTimeout := None\<rparr>))
   \<or> (\<exists>d. stateTimeout s = Some (ScheduleNextGame, d)
          \<and> timeoutFires rnd n1 n2 s = scheduleNextGame rnd (s\<lparr>stateTimeout := None\<rparr>))"
  by (auto simp add: timeoutFires_def Let_def split: option.splits callback.splits)

lemma updateGame_cases:
  assumes "state s = FLYING"
  shows "\<exists>s2 mu pl. emitted s2 = emitted s @ mu \<and> list_all quietEvent mu
      \<and> state s2 = FLYING
      \<and> activePlayers s2 = activePlayers s
      \<and> cashedOutPlayers s2 = cashedOutPlayers s
      \<and> stateTimeout s2 = stateTimeout s
      \<and> gameLoopInterval s2 = gameLoopInterval s
      \<and> history s2 = history s
      \<and> config s2 = config s
      \<and> growth s2 = growth s
      \<and> (updateGame n1 n2 n3 rnd s = crashGame None n3 s2
          \<or> updateGame n1 n2 n3 rnd s = emit (GameStateSnapshot pl) (checkAutoCashOuts s2))"
proof -
  define e where "e = real_of_int (n1 - (case startTime s of None \<Rightarrow> 0 | Some st \<Rightarrow> st)) / 1000"
  define s1 where "s1 = s\<lparr>multiplier := calculateMultiplier s e\<rparr>"
  define s1a where "s1a = s1\<lparr>lastPredictionBroadcast := n1\<rparr>"
  define c where "c = (lastPredictionBroadcast s1 = 0
                     \<or> n1 - lastPredictionBroadcast s1 \<ge> predictionInterval (config s1))"
  define s2 where "s2 = (if c then emit (MultiplierUpdate
                              (buildMultiplierPayload (Some e) (Some n1) n1 s1a)) s1a else s1)"
  define mu where "mu = (if c then [MultiplierUpdate
                              (buildMultiplierPayload (Some e) (Some n1) n1 s1a)] else [])"
  define pl where "pl = buildMultiplierPayload (Some e) (Some n1) n1 (checkAutoCashOuts s2)"
  have ug: "updateGame n1 n2 n3 rnd s =
      (if shouldCrash s2 n2 rnd (multiplier s2) then crashGame None n3 s2
       else if e \<ge> real_of_int (maxGameTime (config s2)) / 1000 then crashGame None n3 s2
       else emit (GameStateSnapshot pl) (checkAutoCashOuts s2))"
    using assms unfolding updateGame_def Let_def s2_def c_def s1a_def s1_def e_def pl_def
    by simp
  have common: "emitted s2 = emitted s @ mu" "list_all quietEvent mu" "state s2 = FLYING"
    "activePlayers s2 = activePlayers s" "cashedOutPlayers s2 = cashedOutPlayers s"
    "stateTimeout s2 = stateTimeout s" "gameLoopInterval s2 = gameLoopInterval s"
    "history s2 = history s" "config s2 = config s" "growth s2 = growth s"
    using assms by (simp_all add: s2_def mu_def s1a_def s1_def emit_def)
  from ug have "updateGame n1 n2 n3 rnd s = crashGame None n3 s2
          \<or> updateGame n1 n2 n3 rnd s = emit (GameStateSnapshot pl) (checkAutoCashOuts s2)"
    by presburger
  with common show ?thesis by blast
qed

subsection \<open>Projections of the event log\<close>

lemma projections_append:
  "finalMultipliers (xs @ ys) = finalMultipliers xs @ finalMultipliers ys"
  "autoCashOuts p (xs @ ys) = autoCashOuts p xs + autoCashOuts p ys"
  "lossesListed p (xs @ ys) = lossesListed p xs + lossesListed p ys"
  "settlements (xs @ ys) = settlements xs + settlements ys"
  "participated p (xs @ ys) = (participated p xs \<or> participated p ys)"
  by (simp_all add: finalMultipliers_def autoCashOuts_def lossesListed_def settlements_def
        participated_def)

lemma projections_Cons:
  "finalMultipliers [] = []"
  "finalMultipliers (e # es) = finalOf e @ finalMultipliers es"
  "autoCashOuts p [] = 0"
  "autoCashOuts p (e # es) = (if isAutoCashOut p e then 1 else 0) + autoCashOuts p es"
  "lossesListed p [] = 0"
  "lossesListed p (e # es) = (if listsLoser p e then 1 else 0) + lossesListed p es"
  "settlements [] = 0"
  "settlements (e # es) = (if isRoundSettled e then 1 else 0) + settlements es"
  "participated p [] = False"
  "participated p (e # es) = (listsParticipant p e \<or> participated p es)"
  by (simp_all add: finalMultipliers_def autoCashOuts_def lossesListed_def settlements_def
        participated_def)

lemma crashSnapshot_quiet: "list_all quietEvent (crashSnapshot now s)"
  by (simp add: crashSnapshot_def split: option.splits)

lemma autoEvents_projections:
  "finalMultipliers (map (autoEvent s) fired) = []"
  "lossesListed p (map (autoEvent s) fired) = 0"
  "settlements (map (autoEvent s) fired) = 0"
  "\<not> participated p (map (autoEvent s) fired)"
  "autoCashOuts p (map (autoEvent s) fired) = length (filter (\<lambda>e. fst e = p) fired)"
  by (induction fired;
      simp add: finalMultipliers_def lossesListed_def settlements_def participated_def
        autoCashOuts_def autoEvent_def)+

subsection \<open>The history follows the settlements\<close>

lemma take_cons_butlast:
  "(if length (x # take n xs) > n then butlast (x # take n xs) else x # take n xs)
     = take n (x # xs)"
proof (cases n)
  case 0
  then show ?thesis by simp
next
  case (Suc k)
  show ?thesis
  proof (cases "k < length xs")
    case True
    then have ne: "take (Suc k) xs \<noteq> []"
      by (cases xs) simp_all
    have len: "length (take (Suc k) xs) = Suc k"
      using True by simp
    have bl: "butlast (take (Suc k) xs) = take k xs"
      using True by (simp add: butlast_take)
    have "butlast (x # take (Suc k) xs) = x # take k xs"
      using ne bl by simp
    then show ?thesis
      unfolding Suc using len by simp
  next
    case False
    then have "take (Suc k) xs = xs" "take k xs = xs"
      by simp_all
    then show ?thesis
      unfolding Suc using False by simp
  qed
qed

lemma crashGame_historyLogged:
  assumes "historyLogged s"
  shows "historyLogged (crashGame t now s)"
proof -
  let ?cap = "historySize (config s)"
  let ?old = "map (toFixed 2) (rev (finalMultipliers (emitted s)))"
  have fm: "finalMultipliers (emitted (crashGame t now s))
              = finalMultipliers (emitted s) @ [multiplier s]"
    using quiet_projections(1) [OF crashSnapshot_quiet [of now s]]
    by (simp add: crashGame_fields projections_append) (simp add: finalMultipliers_def)
  have h: "history s = take ?cap ?old"
    using assms by (simp add: historyLogged_def)
  have "history (crashGame t now s)
          = (if length (toFixed 2 (multiplier s) # take ?cap ?old) > ?cap
             then butlast (toFixed 2 (multiplier s) # take ?cap ?old)
             else toFixed 2 (multiplier s) # take ?cap ?old)"
    by (simp add: crashGame_fields addToHistory_def Let_def h)
  also have "\<dots> = take ?cap (toFixed 2 (multiplier s) # ?old)"
    by (rule take_cons_butlast)
  finally have hist: "history (crashGame t now s) = take ?cap (toFixed 2 (multiplier s) # ?old)" .
  have new: "map (toFixed 2) (rev (finalMultipliers (emitted (crashGame t now s))))
               = toFixed 2 (multiplier s) # ?old"
    by (simp only: fm rev_append rev.simps append.simps list.map)
  have cfg: "config (crashGame t now s) = config s"
    by (rule crashGame_fields(7))
  show ?thesis
    unfolding historyLogged_def by (simp only: hist new cfg)
qed

lemma historyLogged_cong:
  assumes "historyLogged s" and "history s' = history s" and "config s' = config s"
    and "finalMultipliers (emitted s') = finalMultipliers (emitted s)"
  shows "historyLogged s'"
  using assms by (simp add: historyLogged_def)

lemma checkAutoCashOuts_historyLogged:
  assumes "historyLogged s"
  shows "historyLogged (checkAutoCashOuts s)"
proof -
  from checkAutoCashOuts_loop_fired [of "activePlayers s" s]
  obtain fired where f: "emitted (checkAutoCashOuts s) = emitted s @ map (autoEvent s) fired"
    unfolding checkAutoCashOuts_def by blast
  have same: "history (checkAutoCashOuts s) = history s" "config (checkAutoCashOuts s) = config s"
    using checkAutoCashOuts_loop_same [of "activePlayers s" s]
    unfolding checkAutoCashOuts_def by simp_all
  have fm: "finalMultipliers (emitted (checkAutoCashOuts s)) = finalMultipliers (emitted s)"
    by (simp add: f projections_append autoEvents_projections)
  from assms same fm show ?thesis by (rule historyLogged_cong)
qed

lemma updateGame_historyLogged:
  assumes "historyLogged s"
  shows "historyLogged (updateGame n1 n2 n3 rnd s)"
proof (cases "state s = FLYING")
  case False
  with assms show ?thesis by (simp add: updateGame_def)
next
  case True
  from updateGame_cases [OF True, of n1 n2 n3 rnd]
  obtain s2 mu pl where s2: "emitted s2 = emitted s @ mu" "list_all quietEvent mu"
      "history s2 = history s" "config s2 = config s"
    and ug: "updateGame n1 n2 n3 rnd s = crashGame None n3 s2
          \<or> updateGame n1 n2 n3 rnd s = emit (GameStateSnapshot pl) (checkAutoCashOuts s2)"
    by blast
  have fm2: "finalMultipliers (emitted s2) = finalMultipliers (emitted s)"
    using quiet_projections(1) [OF s2(2)] by (simp add: s2(1) projections_append)
  have l2: "historyLogged s2"
    using assms s2(3,4) fm2 by (rule historyLogged_cong)
  from ug show ?thesis
  proof
    assume "updateGame n1 n2 n3 rnd s = crashGame None n3 s2"
    with crashGame_historyLogged [OF l2] show ?thesis by simp
  next
    assume u: "updateGame n1 n2 n3 rnd s = emit (GameStateSnapshot pl) (checkAutoCashOuts s2)"
    let ?s3 = "checkAutoCashOuts s2"
    have l3: "historyLogged ?s3"
      using l2 by (rule checkAutoCashOuts_historyLogged)
    have "historyLogged (emit (GameStateSnapshot pl) ?s3)"
      using l3
    proof (rule historyLogged_cong)
      show "history (emit (GameStateSnapshot pl) ?s3) = history ?s3"
        by (simp add: emit_def)
      show "config (emit (GameStateSnapshot pl) ?s3) = config ?s3"
        by (simp add: emit_def)
      show "finalMultipliers (emitted (emit (GameStateSnapshot pl) ?s3))
              = finalMultipliers (emitted ?s3)"
        by (simp add: emit_def finalMultipliers_def)
    qed
    with u show ?thesis by simp
  qed
qed

lemma step_historyLogged:
  assumes "historyLogged s"
  shows "historyLogged (snd (step i s))"
proof (cases i)
  case (PlaceBet pid amount aco now)
  with assms show ?thesis
    by (auto simp: placeBet_def Let_def intro: historyLogged_cong [of s])
next
  case (CashOut pid)
  with assms show ?thesis
    by (auto simp: cashOut_def Let_def split: option.splits intro: historyLogged_cong [of s])
next
  case (RemovePlayer pid)
  with assms show ?thesis
    by (auto simp: removePlayer_def intro: historyLogged_cong [of s])
next
  case (ForceCrash reason now)
  with assms crashGame_historyLogged [OF assms] show ?thesis
    by (simp add: forceCrash_def Let_def)
next
  case (TimeoutFires rnd n1 n2)
  with assms timeoutFires_cases [of s rnd n1 n2] show ?thesis
    by (auto simp: startCountdown_eq startGame_eq scheduleNextGame_eq historyLogged_def
          projections_append finalMultipliers_def)
next
  case (IntervalFires n1 n2 n3 rnd)
  with assms updateGame_historyLogged [OF assms] show ?thesis
    by (simp add: intervalFires_def)
qed

lemma run_historyLogged:
  "historyLogged s \<Longrightarrow> historyLogged (snd (run ins s))"
proof (induction ins arbitrary: s)
  case Nil
  then show ?case by simp
next
  case (Cons i ins)
  from Cons.IH [OF step_historyLogged [OF Cons.prems, of i]]
  show ?case by (simp add: split_beta Let_def)
qed

lemma initial_historyLogged: "historyLogged (start rnd (GameEngine now))"
  by (simp add: historyLogged_def start_def scheduleNextGame_eq GameEngine_def
        finalMultipliers_def)

lemma updateGame_config: "config (updateGame n1 n2 n3 rnd s) = config s"
proof (cases "state s = FLYING")
  case False
  then show ?thesis by (simp add: updateGame_def)
next
  case True
  from updateGame_cases [OF True, of n1 n2 n3 rnd]
  obtain s2 pl where s2: "config s2 = config s"
    and ug: "updateGame n1 n2 n3 rnd s = crashGame None n3 s2
          \<or> updateGame n1 n2 n3 rnd s = emit (GameStateSnapshot pl) (checkAutoCashOuts s2)"
    by blast
  have "config (checkAutoCashOuts s2) = config s2"
    using checkAutoCashOuts_loop_same [of "activePlayers s2" s2]
    unfolding checkAutoCashOuts_def by simp
  with ug s2 show ?thesis
    by (auto simp: crashGame_fields emit_def)
qed

lemma step_config: "config (snd (step i s)) = config s"
proof (cases i)
  case (PlaceBet pid amount aco now)
  then show ?thesis by (simp add: placeBet_def Let_def)
next
  case (CashOut pid)
  then show ?thesis by (simp add: cashOut_def Let_def split: option.splits)
next
  case (RemovePlayer pid)
  then show ?thesis by (simp add: removePlayer_def)
next
  case (ForceCrash reason now)
  then show ?thesis by (simp add: forceCrash_def Let_def crashGame_fields)
next
  case (TimeoutFires rnd n1 n2)
  with timeoutFires_cases [of s rnd n1 n2] show ?thesis
    by (auto simp: startCountdown_eq startGame_eq scheduleNextGame_eq)
next
  case (IntervalFires n1 n2 n3 rnd)
  then show ?thesis by (simp add: intervalFires_def updateGame_config)
qed

lemma run_config: "config (snd (run ins s)) = config s"
  by (induction ins arbitrary: s) (simp_all add: split_beta Let_def step_config)

subsection \<open>History\<close>

text \<open>
  C7, as amended. After any inputs to a started engine, the history is the last 20
  final multipliers of the \<open>round_settled\<close> events, newest first, each rounded to two
  decimals as \<open>addToHistory\<close> stores it; so its length is the number of settled
  rounds up to 20, and 20 from then on. \<open>addToHistory\<close> on a full history drops the
  last, oldest, entry.
\<close>

theorem C7_history_bounded_newest_first:
  "history (snd (run ins (start rnd (GameEngine now))))
     = take 20 (map (toFixed 2)
         (rev (finalMultipliers (emitted (snd (run ins (start rnd (GameEngine now))))))))
   \<and> length (history (snd (run ins (start rnd (GameEngine now)))))
       = min 20 (length (finalMultipliers (emitted (snd (run ins (start rnd (GameEngine now)))))))
   \<and> history (addToHistory m s)
       = (if historySize (config s) \<le> length (history s)
          then butlast (toFixed 2 m # history s)
          else toFixed 2 m # history s)"
proof -
  let ?s = "snd (run ins (start rnd (GameEngine now)))"
  have cap: "historySize (config ?s) = 20"
    by (simp add: run_config start_def scheduleNextGame_eq GameEngine_def)
  have "historyLogged ?s"
    using initial_historyLogged by (rule run_historyLogged)
  then have h: "history ?s = take 20 (map (toFixed 2) (rev (finalMultipliers (emitted ?s))))"
    by (simp add: historyLogged_def cap)
  have l: "length (history ?s) = min 20 (length (finalMultipliers (emitted ?s)))"
    by (subst h) simp
  have e: "history (addToHistory m s)
       = (if historySize (config s) \<le> length (history s)
          then butlast (toFixed 2 m # history s)
          else toFixed 2 m # history s)"
    by (auto simp add: addToHistory_def Let_def)
  from h l e show ?thesis by blast
qed

lemma exp_fiftieth_bounds: "1.0202 \<le> exp (1 / 50 :: real)" "exp (1 / 50 :: real) \<le> 1.0204"
proof -
  have "1 + (1 / 50) + (1 / 50)\<^sup>2 / 2 \<le> exp (1 / 50 :: real)"
    by (rule exp_lower_Taylor_quadratic) simp
  then show "1.0202 \<le> exp (1 / 50 :: real)"
    by (simp add: power2_eq_square)
  have "exp (1 / 50 :: real) \<le> 1 + (1 / 50) + (1 / 50)\<^sup>2"
    by (rule exp_bound) simp_all
  then show "exp (1 / 50 :: real) \<le> 1.0204"
    by (simp add: power2_eq_square)
qed

lemma toFixed2_exp_fiftieth: "toFixed 2 (exp (1 / 50)) = 1.02"
proof -
  have f: "\<lfloor>exp (1 / 50 :: real) * 100 + 1 / 2\<rfloor> = 102"
    using exp_fiftieth_bounds by (intro floor_unique) simp_all
  have "\<bar>exp (1 / 50 :: real)\<bar> < 10 ^ 21"
    using exp_fiftieth_bounds by simp
  then show ?thesis
    using exp_fiftieth_bounds(1) by (simp add: toFixed_def f)
qed

lemma crashChance_pos: "0 < crashChance e m"
proof -
  have t: "0 \<le> (if e > 30 then (e - 30) * 0.0006 else 0)" by simp
  have u: "0 \<le> (if m > 5 then (m - 5) * 0.0015 else 0)" by simp
  have eq: "crashChance e m =
      min (0.0008 + (if e > 30 then (e - 30) * 0.0006 else 0)
                  + (if m > 5 then (m - 5) * 0.0015 else 0)) 0.08"
    by (simp add: crashChance_def Let_def)
  show ?thesis unfolding eq using t u by (auto simp: min_def)
qed

text \<open>Whole rounds, one after the other.\<close>

lemma run_append: "snd (run (xs @ ys) s) = snd (run ys (snd (run xs s)))"
  by (induction xs arbitrary: s) (simp_all add: split_beta Let_def)

lemma awaitingRound_start: "awaitingRound (start rnd (GameEngine now))"
  by (simp add: awaitingRound_def start_def scheduleNextGame_eq GameEngine_def)

lemma crashGame_finals:
  "finalMultipliers (emitted (crashGame t now s)) = finalMultipliers (emitted s) @ [multiplier s]"
  using quiet_projections(1) [OF crashSnapshot_quiet [of now s]]
  by (simp add: crashGame_fields projections_append projections_Cons)

lemma first_tick_crash:
  assumes "state s = FLYING" and "startTime s = Some st" and "growth s = growth (GameEngine 0)"
  shows "stateTimeout (updateGame (st + 100) n2 n3 0 s) = Some (ScheduleNextGame, 2000)
       \<and> growth (updateGame (st + 100) n2 n3 0 s) = growth s
       \<and> finalMultipliers (emitted (updateGame (st + 100) n2 n3 0 s))
           = finalMultipliers (emitted s) @ [exp (1 / 50)]"
proof -
  have g: "rate (growth s) = 0.2" "minMultiplier (growth s) = 1" "capMultiplier (growth s) = 250"
    using assms(3) by (simp_all add: GameEngine_def)
  have m: "calculateMultiplier s (1 / 10) = exp (1 / 50)"
    using exp_fiftieth_bounds by (simp add: calculateMultiplier_def g)
  define s1 where "s1 = s\<lparr>multiplier := exp (1 / 50)\<rparr>"
  define s1a where "s1a = s1\<lparr>lastPredictionBroadcast := st + 100\<rparr>"
  define s2 where "s2 = (if lastPredictionBroadcast s1 = 0
                     \<or> st + 100 - lastPredictionBroadcast s1 \<ge> predictionInterval (config s1)
                  then emit (MultiplierUpdate
                         (buildMultiplierPayload (Some (1 / 10)) (Some (st + 100)) (st + 100) s1a))
                         s1a
                  else s1)"
  have ug: "updateGame (st + 100) n2 n3 0 s = crashGame None n3 s2"
    unfolding updateGame_def Let_def
    by (simp add: assms(1,2) m shouldCrash_def crashChance_pos s2_def s1a_def s1_def)
  have s2: "multiplier s2 = exp (1 / 50)" "growth s2 = growth s"
    "finalMultipliers (emitted s2) = finalMultipliers (emitted s)"
    by (simp_all add: s2_def s1a_def s1_def emit_def projections_append projections_Cons)
  show ?thesis
    by (simp add: ug crashGame_fields(5,8) crashGame_finals s2)
qed

lemma tick_round_effect:
  assumes "awaitingRound s"
  shows "awaitingRound (snd (run (tick_round b) s))
       \<and> finalMultipliers (emitted (snd (run (tick_round b) s)))
           = finalMultipliers (emitted s) @ [exp (1 / 50)]"
proof -
  from assms obtain d where d: "stateTimeout s = Some (StartCountdown, d)"
    and g: "growth s = growth (GameEngine 0)"
    by (auto simp: awaitingRound_def split: option.splits callback.splits)
  define a where "a = timeoutFires 0 (b + 5000) (b + 5000) s"
  define f where "f = timeoutFires 0 (b + 8000) (b + 8001) a"
  define c where "c = updateGame (b + 8100) (b + 8100) (b + 8100) 0 f"
  define w where "w = timeoutFires (1 / 2) (b + 10100) (b + 10100) c"
  have a: "stateTimeout a = Some (StartGame, countdownTime (config s))" "growth a = growth s"
    "finalMultipliers (emitted a) = finalMultipliers (emitted s)"
    by (simp_all add: a_def timeoutFires_def Let_def d startCountdown_eq projections_append
          projections_Cons)
  have f: "state f = FLYING" "startTime f = Some (b + 8000)" "gameLoopInterval f"
    "growth f = growth s" "finalMultipliers (emitted f) = finalMultipliers (emitted s)"
    by (simp_all add: f_def timeoutFires_def Let_def a startGame_eq projections_append
          projections_Cons)
  have e: "b + 8000 + 100 = b + 8100" by simp
  from first_tick_crash [OF f(1,2), of "b + 8100" "b + 8100", unfolded e] f(4,5) g
  have c: "stateTimeout c = Some (ScheduleNextGame, 2000)" "growth c = growth s"
    "finalMultipliers (emitted c) = finalMultipliers (emitted s) @ [exp (1 / 50)]"
    by (simp_all add: c_def)
  have w: "awaitingRound w"
    "finalMultipliers (emitted w) = finalMultipliers (emitted s) @ [exp (1 / 50)]"
    by (simp_all add: w_def timeoutFires_def Let_def c scheduleNextGame_eq awaitingRound_def g
          projections_append projections_Cons)
  have "snd (run (tick_round b) s) = w"
    by (simp add: tick_round_def split_beta intervalFires_def a_def [symmetric]
          f_def [symmetric] f(3) c_def w_def)
  with w show ?thesis by simp
qed

lemma forced_round_effect:
  assumes "awaitingRound s"
  shows "awaitingRound (snd (run (forced_round b) s))
       \<and> finalMultipliers (emitted (snd (run (forced_round b) s)))
           = finalMultipliers (emitted s) @ [1]"
proof -
  from assms obtain d where d: "stateTimeout s = Some (StartCountdown, d)"
    and g: "growth s = growth (GameEngine 0)"
    by (auto simp: awaitingRound_def split: option.splits callback.splits)
  define a where "a = timeoutFires 0 (b + 5000) (b + 5000) s"
  define f where "f = timeoutFires 0 (b + 8000) (b + 8001) a"
  define c where "c = crashGame (Some ''admin_override'') (b + 8100) f"
  define w where "w = timeoutFires (1 / 2) (b + 10100) (b + 10100) c"
  have a: "stateTimeout a = Some (StartGame, countdownTime (config s))" "growth a = growth s"
    "finalMultipliers (emitted a) = finalMultipliers (emitted s)"
    by (simp_all add: a_def timeoutFires_def Let_def d startCountdown_eq projections_append
          projections_Cons)
  have f: "state f = FLYING" "multiplier f = 1"
    "growth f = growth s" "finalMultipliers (emitted f) = finalMultipliers (emitted s)"
    by (simp_all add: f_def timeoutFires_def Let_def a startGame_eq projections_append
          projections_Cons)
  have c: "stateTimeout c = Some (ScheduleNextGame, 2000)" "growth c = growth s"
    "finalMultipliers (emitted c) = finalMultipliers (emitted s) @ [1]"
    by (simp_all add: c_def crashGame_fields(5,8) crashGame_finals f)
  have w: "awaitingRound w"
    "finalMultipliers (emitted w) = finalMultipliers (emitted s) @ [1]"
    by (simp_all add: w_def timeoutFires_def Let_def c scheduleNextGame_eq awaitingRound_def g
          projections_append projections_Cons)
  have "snd (run (forced_round b) s) = w"
    by (simp add: forced_round_def split_beta forceCrash_def f(1) Let_def a_def [symmetric]
          f_def [symmetric] c_def [symmetric] w_def)
  with w show ?thesis by simp
qed

lemma tick_rounds_effect:
  "awaitingRound s \<Longrightarrow>
     awaitingRound (snd (run (tick_rounds ks) s))
     \<and> finalMultipliers (emitted (snd (run (tick_rounds ks) s)))
         = finalMultipliers (emitted s) @ replicate (length ks) (exp (1 / 50))"
proof (induction ks arbitrary: s)
  case Nil
  then show ?case by (simp add: tick_rounds_def)
next
  case (Cons k ks)
  let ?s1 = "snd (run (tick_round (1000 + 10100 * int k)) s)"
  from tick_round_effect [OF Cons.prems, of "1000 + 10100 * int k"]
  have s1: "awaitingRound ?s1"
    "finalMultipliers (emitted ?s1) = finalMultipliers (emitted s) @ [exp (1 / 50)]"
    by simp_all
  have split: "tick_rounds (k # ks) = tick_round (1000 + 10100 * int k) @ tick_rounds ks"
    by (simp add: tick_rounds_def)
  from Cons.IH [OF s1(1)] s1(2) show ?case
    unfolding split run_append by (simp add: replicate_append_same)
qed

lemma start_finals: "finalMultipliers (emitted (start rnd (GameEngine now))) = []"
  by (simp add: start_def scheduleNextGame_eq GameEngine_def projections_Cons)

lemma started_history:
  "history (snd (run ins (start rnd (GameEngine now))))
     = take 20 (map (toFixed 2)
         (rev (finalMultipliers (emitted (snd (run ins (start rnd (GameEngine now))))))))"
proof -
  let ?s = "snd (run ins (start rnd (GameEngine now)))"
  have cap: "historySize (config ?s) = 20"
    by (simp add: run_config start_def scheduleNextGame_eq GameEngine_def)
  have "historyLogged ?s"
    using initial_historyLogged by (rule run_historyLogged)
  then show ?thesis
    by (simp add: historyLogged_def cap)
qed

text \<open>
  In 21 rounds of which the first and the last are ended at multiplier 1 and the 19
  between crash on their first tick, the history has 20 entries: the last round first,
  the 19 rounded multipliers after it, and the first round evicted.
\<close>

theorem C7_history_witness:
  "length (finalMultipliers
      (emitted (snd (run example_21_mixed (start 0.5 (GameEngine 1000)))))) = 21
   \<and> finalMultipliers (emitted (snd (run example_21_mixed (start 0.5 (GameEngine 1000)))))
       = 1 # replicate 19 (exp (1 / 50)) @ [1]
   \<and> history (snd (run example_21_mixed (start 0.5 (GameEngine 1000))))
       = 1 # replicate 19 1.02
   \<and> length (history (snd (run example_21_mixed (start 0.5 (GameEngine 1000))))) = 20"
proof -
  define s0 where "s0 = start 0.5 (GameEngine 1000)"
  define s1 where "s1 = snd (run (forced_round 1000) s0)"
  define s2 where "s2 = snd (run (tick_rounds [1..<20]) s1)"
  define s3 where "s3 = snd (run (forced_round (1000 + 10100 * 20)) s2)"
  have r: "snd (run example_21_mixed (start 0.5 (GameEngine 1000))) = s3"
    by (simp only: example_21_mixed_def run_append s3_def s2_def s1_def s0_def)
  have a0: "awaitingRound s0" "finalMultipliers (emitted s0) = []"
    unfolding s0_def by (rule awaitingRound_start, rule start_finals)
  from forced_round_effect [OF a0(1), of 1000]
  have a1: "awaitingRound s1" "finalMultipliers (emitted s1) = [1]"
    by (simp_all add: s1_def a0(2))
  from tick_rounds_effect [OF a1(1), of "[1..<20]"]
  have a2: "awaitingRound s2"
    "finalMultipliers (emitted s2) = 1 # replicate 19 (exp (1 / 50))"
    by (simp_all add: s2_def a1(2))
  from forced_round_effect [OF a2(1), of "1000 + 10100 * 20"]
  have a3: "finalMultipliers (emitted s3) = 1 # replicate 19 (exp (1 / 50)) @ [1]"
    by (simp add: s3_def a2(2))
  from C7_history_bounded_newest_first [of example_21_mixed "0.5" 1000 1 "GameEngine 0"]
  show ?thesis
    unfolding r a3 by (simp add: toFixed_one toFixed2_exp_fiftieth)
qed

text \<open>
  C7 as stated fails: after 21 rounds that each crash on their first tick, 100 ms after
  the start, the final multipliers in the events are 21 times \<open>exp (1/50)\<close>, and the
  history holds 20 times 1.02, which is not the 20 most recent final multipliers.
\<close>

theorem C7_history_counterexample:
  "length (finalMultipliers
      (emitted (snd (run example_21_rounds (start 0.5 (GameEngine 1000)))))) = 21
   \<and> finalMultipliers (emitted (snd (run example_21_rounds (start 0.5 (GameEngine 1000)))))
       = replicate 21 (exp (1 / 50))
   \<and> history (snd (run example_21_rounds (start 0.5 (GameEngine 1000)))) = replicate 20 1.02
   \<and> history (snd (run example_21_rounds (start 0.5 (GameEngine 1000))))
       \<noteq> take 20 (rev (finalMultipliers
             (emitted (snd (run example_21_rounds (start 0.5 (GameEngine 1000)))))))"
proof -
  let ?s = "snd (run example_21_rounds (start 0.5 (GameEngine 1000)))"
  have fm: "finalMultipliers (emitted ?s) = replicate 21 (exp (1 / 50))"
    using tick_rounds_effect [OF awaitingRound_start, of "[0..<21]" "0.5" 1000]
    by (simp add: example_21_rounds_def start_finals)
  have h: "history ?s = replicate 20 1.02"
    unfolding started_history fm by (simp add: toFixed2_exp_fiftieth)
  have ne: "exp (1 / 50) \<noteq> (1.02 :: real)"
    using exp_fiftieth_bounds(1) by simp
  have "replicate 20 (1.02 :: real) \<noteq> take 20 (rev (replicate 21 (exp (1 / 50))))"
    using ne by (simp add: replicate_eq_replicate)
  then show ?thesis
    unfolding h fm by simp
qed

subsection \<open>Wagers without a threshold\<close>












subsection \<open>The event log only grows\<close>

lemma checkAutoCashOuts_emitted: "\<exists>evs. emitted (checkAutoCashOuts s) = emitted s @ evs"
  using checkAutoCashOuts_loop_fired [of "activePlayers s" s]
  unfolding checkAutoCashOuts_def by blast

lemma updateGame_emitted: "\<exists>evs. emitted (updateGame n1 n2 n3 rnd s) = emitted s @ evs"
proof (cases "state s = FLYING")
  case False
  then show ?thesis by (simp add: updateGame_def)
next
  case True
  from updateGame_cases [OF True, of n1 n2 n3 rnd]
  obtain s2 mu pl where s2: "emitted s2 = emitted s @ mu"
    and ug: "updateGame n1 n2 n3 rnd s = crashGame None n3 s2
          \<or> updateGame n1 n2 n3 rnd s = emit (GameStateSnapshot pl) (checkAutoCashOuts s2)"
    by blast
  from checkAutoCashOuts_emitted [of s2]
  obtain evs where e: "emitted (checkAutoCashOuts s2) = emitted s2 @ evs" by blast
  from ug show ?thesis
  proof
    assume "updateGame n1 n2 n3 rnd s = crashGame None n3 s2"
    then show ?thesis by (simp add: crashGame_fields s2)
  next
    assume "updateGame n1 n2 n3 rnd s = emit (GameStateSnapshot pl) (checkAutoCashOuts s2)"
    then show ?thesis by (simp add: emit_def e s2)
  qed
qed

lemma step_emitted: "\<exists>evs. emitted (snd (step i s)) = emitted s @ evs"
proof (cases i)
  case (PlaceBet pid amount aco now)
  then show ?thesis by (simp add: placeBet_def Let_def)
next
  case (CashOut pid)
  then show ?thesis by (simp add: cashOut_def Let_def split: option.splits)
next
  case (RemovePlayer pid)
  then show ?thesis by (simp add: removePlayer_def)
next
  case (ForceCrash reason now)
  then show ?thesis by (simp add: forceCrash_def Let_def crashGame_fields)
next
  case (TimeoutFires rnd n1 n2)
  with timeoutFires_cases [of s rnd n1 n2] show ?thesis
    by (auto simp: startCountdown_eq startGame_eq scheduleNextGame_eq)
next
  case (IntervalFires n1 n2 n3 rnd)
  with updateGame_emitted [of n1 n2 n3 rnd s] show ?thesis
    by (simp add: intervalFires_def)
qed

lemma run_emitted: "\<exists>evs. emitted (snd (run ins s)) = emitted s @ evs"
proof (induction ins arbitrary: s)
  case Nil
  then show ?case by simp
next
  case (Cons i ins)
  from step_emitted [of i s] obtain e1 where e1: "emitted (snd (step i s)) = emitted s @ e1"
    by blast
  from Cons.IH [of "snd (step i s)"] obtain e2
    where e2: "emitted (snd (run ins (snd (step i s)))) = emitted (snd (step i s)) @ e2"
    by blast
  show ?case by (simp add: split_beta Let_def e2 e1)
qed



subsection \<open>A threshold of zero\<close>



subsection \<open>One step of a flight\<close>

lemma settlement_ids:
  "ls_playerId ` loserOf ` A = fst ` A"
  "pt_playerId ` participantOf co ` A = fst ` A"
  by (simp_all add: image_image loserOf_def participantOf_def)

lemma crashGame_outcomes:
  "settlements (eventsSince s (crashGame t now s)) = 1"
  "autoCashOuts p (eventsSince s (crashGame t now s)) = 0"
  "lossesListed p (eventsSince s (crashGame t now s)) = (if p \<in> unsettled s then 1 else 0)"
  "participated p (eventsSince s (crashGame t now s)) = hasWager p s"
proof -
  let ?evs = "crashSnapshot now s @
      [GameStateCrashed CRASHED (multiplier s),
       RoundSettled (multiplier s)
         (map loserOf (filter (\<lambda>e. fst e \<notin> cashedOutPlayers s) (activePlayers s)))
         (map (participantOf (cashedOutPlayers s)) (activePlayers s))]"
  have e: "eventsSince s (crashGame t now s) = ?evs"
    by (rule eventsSince_append) (simp add: crashGame_fields)
  note q = quiet_projections [OF crashSnapshot_quiet [of now s]]
  show "settlements (eventsSince s (crashGame t now s)) = 1"
    by (simp add: e projections_append projections_Cons q)
  show "autoCashOuts p (eventsSince s (crashGame t now s)) = 0"
    by (simp add: e projections_append projections_Cons q)
  have "fst ` set (filter (\<lambda>e. fst e \<notin> cashedOutPlayers s) (activePlayers s)) = unsettled s"
    by (auto simp: unsettled_def)
  then show "lossesListed p (eventsSince s (crashGame t now s))
               = (if p \<in> unsettled s then 1 else 0)"
    by (simp add: e projections_append projections_Cons q settlement_ids)
  show "participated p (eventsSince s (crashGame t now s)) = hasWager p s"
    by (simp add: e projections_append projections_Cons q settlement_ids hasWager_def)
qed

lemma eventsSince_trans:
  assumes "emitted s1 = emitted s @ e1" and "emitted s2 = emitted s1 @ e2"
  shows "eventsSince s s2 = e1 @ eventsSince s1 s2"
  using assms by (simp add: eventsSince_def)

lemma count_distinct_key:
  "distinct (map fst xs) \<Longrightarrow>
     length (filter (\<lambda>e. fst e = p) xs) = (if p \<in> fst ` set xs then 1 else 0)"
  by (induction xs) (auto simp: image_iff)

lemma manualCashOuts_single:
  "manualCashOuts p [i] [r] = (if isManualCashOut p (i, r) then 1 else 0)"
  by (simp add: manualCashOuts_def)

lemma updateGame_flying_step:
  assumes fl: "state s = FLYING" and nt: "stateTimeout s = None"
  shows "(state (updateGame n1 n2 n3 rnd s) = FLYING
          \<and> stateTimeout (updateGame n1 n2 n3 rnd s) = None
          \<and> map fst (activePlayers (updateGame n1 n2 n3 rnd s)) = map fst (activePlayers s)
          \<and> unsettled (updateGame n1 n2 n3 rnd s) \<subseteq> unsettled s
          \<and> settlements (eventsSince s (updateGame n1 n2 n3 rnd s)) = 0
          \<and> (\<forall>p. \<not> participated p (eventsSince s (updateGame n1 n2 n3 rnd s))
                \<and> lossesListed p (eventsSince s (updateGame n1 n2 n3 rnd s)) = 0
                \<and> autoCashOuts p (eventsSince s (updateGame n1 n2 n3 rnd s))
                    = (if p \<in> unsettled s \<and> p \<notin> unsettled (updateGame n1 n2 n3 rnd s)
                       then 1 else 0)))
       \<or> (state (updateGame n1 n2 n3 rnd s) = CRASHED
          \<and> settlements (eventsSince s (updateGame n1 n2 n3 rnd s)) = 1
          \<and> (\<forall>p. participated p (eventsSince s (updateGame n1 n2 n3 rnd s)) = hasWager p s
                \<and> autoCashOuts p (eventsSince s (updateGame n1 n2 n3 rnd s)) = 0
                \<and> lossesListed p (eventsSince s (updateGame n1 n2 n3 rnd s))
                    = (if p \<in> unsettled s then 1 else 0)))"
proof -
  let ?u = "updateGame n1 n2 n3 rnd s"
  from updateGame_cases [OF fl, of n1 n2 n3 rnd]
  obtain s2 mu pl where s2: "emitted s2 = emitted s @ mu" "list_all quietEvent mu"
      "state s2 = FLYING" "activePlayers s2 = activePlayers s"
      "cashedOutPlayers s2 = cashedOutPlayers s" "stateTimeout s2 = stateTimeout s"
    and ug: "?u = crashGame None n3 s2 \<or> ?u = emit (GameStateSnapshot pl) (checkAutoCashOuts s2)"
    by blast
  note q = quiet_projections [OF s2(2)]
  have u2: "unsettled s2 = unsettled s" and w2: "\<And>p. hasWager p s2 = hasWager p s"
    by (simp_all add: unsettled_def hasWager_def s2)
  from ug show ?thesis
  proof
    assume c: "?u = crashGame None n3 s2"
    obtain e2 where e2: "emitted (crashGame None n3 s2) = emitted s2 @ e2"
      by (simp add: crashGame_fields)
    have es: "eventsSince s ?u = mu @ eventsSince s2 (crashGame None n3 s2)"
      unfolding c using s2(1) e2 by (rule eventsSince_trans)
    have "state ?u = CRASHED" by (simp add: c crashGame_fields)
    moreover have "settlements (eventsSince s ?u) = 1"
      by (simp add: es projections_append q crashGame_outcomes)
    moreover have "participated p (eventsSince s ?u) = hasWager p s
        \<and> autoCashOuts p (eventsSince s ?u) = 0
        \<and> lossesListed p (eventsSince s ?u) = (if p \<in> unsettled s then 1 else 0)" for p
      by (simp add: es projections_append q crashGame_outcomes u2 w2)
    ultimately show ?thesis by blast
  next
    assume t: "?u = emit (GameStateSnapshot pl) (checkAutoCashOuts s2)"
    from checkAutoCashOuts_loop_fired [of "activePlayers s2" s2]
    obtain fired where f:
      "emitted (checkAutoCashOuts s2) = emitted s2 @ map (autoEvent s2) fired"
      "cashedOutPlayers (checkAutoCashOuts s2) = cashedOutPlayers s2 \<union> fst ` set fired"
      "distinct (map fst fired)" "fst ` set fired \<inter> cashedOutPlayers s2 = {}"
      "set fired \<subseteq> set (activePlayers s2)"
      unfolding checkAutoCashOuts_def by blast
    note same = checkAutoCashOuts_loop_same [of "activePlayers s2" s2, folded checkAutoCashOuts_def]
    have keys: "map fst (activePlayers ?u) = map fst (activePlayers s)"
      using same by (simp add: t emit_def s2)
    have co: "cashedOutPlayers ?u = cashedOutPlayers s \<union> fst ` set fired"
      by (simp add: t emit_def f(2) s2)
    have sub: "fst ` set fired \<subseteq> unsettled s"
      using f(4,5) by (auto simp: unsettled_def s2)
    have un: "unsettled ?u = unsettled s - fst ` set fired"
    proof -
      have "fst ` set (activePlayers ?u) = fst ` set (activePlayers s)"
        using keys by (metis list.set_map)
      then show ?thesis by (auto simp: unsettled_def co)
    qed
    have em: "emitted ?u = emitted s @ (mu @ map (autoEvent s2) fired @ [GameStateSnapshot pl])"
      by (simp add: t emit_def f(1) s2(1))
    have es: "eventsSince s ?u = mu @ map (autoEvent s2) fired @ [GameStateSnapshot pl]"
      using em by (rule eventsSince_append)
    have "state ?u = FLYING" "stateTimeout ?u = None"
      using same by (simp_all add: t emit_def s2 nt)
    moreover have "unsettled ?u \<subseteq> unsettled s"
      using un by blast
    moreover have "settlements (eventsSince s ?u) = 0"
      by (simp add: es projections_append projections_Cons q autoEvents_projections)
    moreover have "\<not> participated p (eventsSince s ?u)
        \<and> lossesListed p (eventsSince s ?u) = 0
        \<and> autoCashOuts p (eventsSince s ?u)
            = (if p \<in> unsettled s \<and> p \<notin> unsettled ?u then 1 else 0)" for p
    proof -
      have "autoCashOuts p (eventsSince s ?u) = (if p \<in> fst ` set fired then 1 else 0)"
        by (simp add: es projections_append projections_Cons q autoEvents_projections
              count_distinct_key [OF f(3)])
      moreover have "(p \<in> fst ` set fired) = (p \<in> unsettled s \<and> p \<notin> unsettled ?u)"
        using sub un by auto
      ultimately show ?thesis
        by (simp add: es projections_append projections_Cons q autoEvents_projections)
    qed
    ultimately show ?thesis using keys by blast
  qed
qed

lemma eventsSince_self: "eventsSince s s = []"
  by (simp add: eventsSince_def)

lemma outcomes_quiet_step:
  assumes "\<not> isManualCashOut p (i, r)"
  shows "outcomes p [i] [r] [] = 0"
  using assms by (simp add: outcomes_def manualCashOuts_single projections_Cons)

lemma idle_flying_step:
  assumes "state s = FLYING" and "stateTimeout s = None"
    and "\<And>p. \<not> isManualCashOut p (i, r)" and "\<And>p. i \<noteq> RemovePlayer p"
  shows "state s = FLYING \<and> stateTimeout s = None
       \<and> fst ` set (activePlayers s) \<subseteq> fst ` set (activePlayers s)
       \<and> unsettled s \<subseteq> unsettled s
       \<and> settlements (eventsSince s s) = 0
       \<and> (\<forall>p. \<not> participated p (eventsSince s s)
             \<and> outcomes p [i] [r] (eventsSince s s)
                 = (if p \<in> unsettled s \<and> p \<notin> unsettled s \<and> i \<noteq> RemovePlayer p then 1 else 0)
             \<and> hasWager p s = (hasWager p s \<and> i \<noteq> RemovePlayer p))"
  using assms by (simp add: eventsSince_self projections_Cons outcomes_quiet_step)

lemma flying_step:
  assumes fl: "state s = FLYING" and nt: "stateTimeout s = None"
    and st: "step i s = (r, s1)"
  shows "(state s1 = FLYING \<and> stateTimeout s1 = None
          \<and> fst ` set (activePlayers s1) \<subseteq> fst ` set (activePlayers s)
          \<and> unsettled s1 \<subseteq> unsettled s
          \<and> settlements (eventsSince s s1) = 0
          \<and> (\<forall>p. \<not> participated p (eventsSince s s1)
                \<and> outcomes p [i] [r] (eventsSince s s1)
                    = (if p \<in> unsettled s \<and> p \<notin> unsettled s1 \<and> i \<noteq> RemovePlayer p
                       then 1 else 0)
                \<and> hasWager p s1 = (hasWager p s \<and> i \<noteq> RemovePlayer p)))
       \<or> (state s1 = CRASHED \<and> settlements (eventsSince s s1) = 1
          \<and> (\<forall>p. participated p (eventsSince s s1) = hasWager p s
                \<and> outcomes p [i] [r] (eventsSince s s1)
                    = (if p \<in> unsettled s then 1 else 0)))"
proof (cases i)
  case (PlaceBet q amount aco now)
  with st fl have "s1 = s" "r = BetResult False"
    by (auto simp: placeBet_def canPlaceBet_def)
  with PlaceBet idle_flying_step [OF fl nt, of i r] show ?thesis by simp
next
  case (TimeoutFires rnd n1 n2)
  with st nt have "s1 = s" "r = NoResult"
    by (auto simp: timeoutFires_def)
  with TimeoutFires idle_flying_step [OF fl nt, of i r] show ?thesis by simp
next
  case (ForceCrash reason now)
  with st fl have s1: "s1 = crashGame (Some reason) now s"
    and r: "r = ForceCrashResult (ForceCrashOk (multiplier s))"
    by (auto simp: forceCrash_def Let_def crashGame_fields)
  have "outcomes p [i] [r] (eventsSince s s1) = (if p \<in> unsettled s then 1 else 0)" for p
    by (simp add: outcomes_def manualCashOuts_single ForceCrash r s1 crashGame_outcomes)
  then show ?thesis
    by (simp add: s1 crashGame_fields crashGame_outcomes)
next
  case (RemovePlayer q)
  with st have s1: "s1 = removePlayer q s" and r: "r = NoResult"
    by auto
  have keys: "fst ` set (activePlayers s1) = fst ` set (activePlayers s) - {q}"
    by (auto simp: s1 removePlayer_def AList.delete_eq image_iff)
  have un: "unsettled s1 = unsettled s - {q}"
    using keys by (auto simp: unsettled_def s1 removePlayer_def)
  have ev: "eventsSince s s1 = []"
    by (simp add: s1 removePlayer_def eventsSince_def)
  have fields: "state s1 = FLYING" "stateTimeout s1 = None"
    using fl nt by (simp_all add: s1 removePlayer_def)
  have "outcomes p [i] [r] (eventsSince s s1)
          = (if p \<in> unsettled s \<and> p \<notin> unsettled s1 \<and> i \<noteq> RemovePlayer p then 1 else 0)"
    for p
    using un by (auto simp: ev RemovePlayer r outcomes_def manualCashOuts_single projections_Cons)
  moreover have "hasWager p s1 = (hasWager p s \<and> i \<noteq> RemovePlayer p)" for p
    using keys by (auto simp: RemovePlayer hasWager_def)
  ultimately show ?thesis
    using fields keys un by (simp add: ev projections_Cons)
next
  case (CashOut q)
  show ?thesis
  proof (cases "succeeded (fst (cashOut q s))")
    case False
    then have c: "snd (cashOut q s) = s"
      by (auto simp: cashOut_def Let_def succeeded_def split: option.splits if_splits)
    from st CashOut have "s1 = snd (cashOut q s)" "r = CashOutResult (fst (cashOut q s))"
      by (auto simp: split_beta)
    with c have "s1 = s" "r = CashOutResult (fst (cashOut q s))"
      by simp_all
    with CashOut False idle_flying_step [OF fl nt, of i r] show ?thesis by simp
  next
    case True
    then obtain pd where pd: "map_of (activePlayers s) q = Some pd" and nc: "q \<notin> cashedOutPlayers s"
      by (auto simp: cashOut_def Let_def succeeded_def split: option.splits if_splits)
    from pd have qk: "q \<in> fst ` set (activePlayers s)"
      by (metis hasWager_def hasWager_iff option.distinct(1))
    from st CashOut fl pd nc have s1: "s1 = s\<lparr>cashedOutPlayers := insert q (cashedOutPlayers s),
          activePlayers := AList.map_entry q (\<lambda>d. d\<lparr>hasWon := True\<rparr>) (activePlayers s),
          stats := (stats s)\<lparr>totalPayouts :=
            js_add (totalPayouts (stats s)) (js_mul (bet pd) (JNum (multiplier s)))\<rparr>\<rparr>"
      and r: "r = CashOutResult (fst (cashOut q s))"
      by (auto simp: cashOut_def Let_def)
    have keys: "fst ` set (activePlayers s1) = fst ` set (activePlayers s)"
      using map_fst_map_entry [of q "\<lambda>d. d\<lparr>hasWon := True\<rparr>" "activePlayers s"]
      by (simp add: s1) (metis list.set_map)
    have un: "unsettled s1 = unsettled s - {q}" and qu: "q \<in> unsettled s"
      using keys qk nc by (auto simp: unsettled_def s1)
    have ev: "eventsSince s s1 = []"
      by (simp add: s1 eventsSince_def)
    have fields: "state s1 = FLYING" "stateTimeout s1 = None"
      using fl nt by (simp_all add: s1)
    have "outcomes p [i] [r] (eventsSince s s1)
            = (if p \<in> unsettled s \<and> p \<notin> unsettled s1 \<and> i \<noteq> RemovePlayer p then 1 else 0)"
      for p
      using un qu True
      by (auto simp: ev CashOut r outcomes_def manualCashOuts_single projections_Cons)
    moreover have "hasWager p s1 = (hasWager p s \<and> i \<noteq> RemovePlayer p)" for p
      using keys by (simp add: hasWager_def CashOut)
    ultimately show ?thesis
      using fields keys un by (simp add: ev projections_Cons)
  qed
next
  case (IntervalFires n1 n2 n3 rnd)
  show ?thesis
  proof (cases "gameLoopInterval s")
    case False
    with st IntervalFires have "s1 = s" "r = NoResult"
      by (auto simp: intervalFires_def)
    with IntervalFires idle_flying_step [OF fl nt, of i r] show ?thesis by simp
  next
    case True
    with st IntervalFires have s1: "s1 = updateGame n1 n2 n3 rnd s" and r: "r = NoResult"
      by (auto simp: intervalFires_def)
    have m: "outcomes p [i] [r] evs = autoCashOuts p evs + lossesListed p evs" for p evs
      by (simp add: outcomes_def manualCashOuts_single r)
    have ne: "i \<noteq> RemovePlayer p" for p
      using IntervalFires by simp
    from updateGame_flying_step [OF fl nt, of n1 n2 n3 rnd]
    show ?thesis
    proof
      assume a: "state (updateGame n1 n2 n3 rnd s) = FLYING
          \<and> stateTimeout (updateGame n1 n2 n3 rnd s) = None
          \<and> map fst (activePlayers (updateGame n1 n2 n3 rnd s)) = map fst (activePlayers s)
          \<and> unsettled (updateGame n1 n2 n3 rnd s) \<subseteq> unsettled s
          \<and> settlements (eventsSince s (updateGame n1 n2 n3 rnd s)) = 0
          \<and> (\<forall>p. \<not> participated p (eventsSince s (updateGame n1 n2 n3 rnd s))
                \<and> lossesListed p (eventsSince s (updateGame n1 n2 n3 rnd s)) = 0
                \<and> autoCashOuts p (eventsSince s (updateGame n1 n2 n3 rnd s))
                    = (if p \<in> unsettled s \<and> p \<notin> unsettled (updateGame n1 n2 n3 rnd s)
                       then 1 else 0))"
      then have keys: "fst ` set (activePlayers s1) = fst ` set (activePlayers s)"
        unfolding s1 by (metis list.set_map)
      then have w: "hasWager p s1 = hasWager p s" for p
        by (simp add: hasWager_def)
      from a keys w show ?thesis
        unfolding s1 [symmetric] by (simp add: m ne)
    next
      assume b: "state (updateGame n1 n2 n3 rnd s) = CRASHED
          \<and> settlements (eventsSince s (updateGame n1 n2 n3 rnd s)) = 1
          \<and> (\<forall>p. participated p (eventsSince s (updateGame n1 n2 n3 rnd s)) = hasWager p s
                \<and> autoCashOuts p (eventsSince s (updateGame n1 n2 n3 rnd s)) = 0
                \<and> lossesListed p (eventsSince s (updateGame n1 n2 n3 rnd s))
                    = (if p \<in> unsettled s then 1 else 0))"
      then show ?thesis
        unfolding s1 [symmetric] by (simp add: m)
    qed
  qed
qed

lemma outcomes_Cons:
  assumes "emitted s1 = emitted s @ e1" and "emitted s2 = emitted s1 @ e2"
  shows "outcomes p (i # is) (r # rs) (eventsSince s s2)
           = outcomes p [i] [r] (eventsSince s s1) + outcomes p is rs (eventsSince s1 s2)"
proof -
  have "eventsSince s s2 = e1 @ e2" "eventsSince s s1 = e1" "eventsSince s1 s2 = e2"
    using assms by (simp_all add: eventsSince_def)
  then show ?thesis
    by (simp add: outcomes_def manualCashOuts_def projections_append)
qed

lemma flight_outcomes:
  assumes "settles ins s" and "state s = FLYING" and "stateTimeout s = None"
    and "run ins s = (rs, s')"
  shows "settlements (eventsSince s s') = 1
       \<and> (\<forall>p. outcomes p ins rs (eventsSince s s') \<le> (if p \<in> unsettled s then 1 else 0))
       \<and> (\<forall>p. participated p (eventsSince s s') \<longrightarrow>
              hasWager p s
              \<and> outcomes p ins rs (eventsSince s s') = (if p \<in> unsettled s then 1 else 0))
       \<and> (\<forall>p. RemovePlayer p \<notin> set ins \<longrightarrow>
              participated p (eventsSince s s') = hasWager p s
              \<and> outcomes p ins rs (eventsSince s s') = (if p \<in> unsettled s then 1 else 0))"
  using assms
proof (induction ins arbitrary: s rs s')
  case Nil
  then show ?case by simp
next
  case (Cons i ins)
  obtain r s1 where st: "step i s = (r, s1)" by (cases "step i s")
  obtain rs1 where rn: "run ins s1 = (rs1, s')" and rs: "rs = r # rs1"
    using Cons.prems(4) st by (auto simp: split_beta Let_def) (metis prod.collapse)
  from Cons.prems(1) st have se: "settles ins s1" by simp
  from step_emitted [of i s] st obtain e1 where e1: "emitted s1 = emitted s @ e1" by auto
  from run_emitted [of ins s1] rn obtain e2 where e2: "emitted s' = emitted s1 @ e2" by auto
  have es: "eventsSince s s' = eventsSince s s1 @ eventsSince s1 s'"
    using e1 e2 by (simp add: eventsSince_def)
  note oc = outcomes_Cons [OF e1 e2, of _ i ins r rs1, folded rs]
  from flying_step [OF Cons.prems(2,3) st]
  show ?case
  proof
    assume a: "state s1 = FLYING \<and> stateTimeout s1 = None
          \<and> fst ` set (activePlayers s1) \<subseteq> fst ` set (activePlayers s)
          \<and> unsettled s1 \<subseteq> unsettled s
          \<and> settlements (eventsSince s s1) = 0
          \<and> (\<forall>p. \<not> participated p (eventsSince s s1)
                \<and> outcomes p [i] [r] (eventsSince s s1)
                    = (if p \<in> unsettled s \<and> p \<notin> unsettled s1 \<and> i \<noteq> RemovePlayer p
                       then 1 else 0)
                \<and> hasWager p s1 = (hasWager p s \<and> i \<noteq> RemovePlayer p))"
    then have fl1: "state s1 = FLYING" and nt1: "stateTimeout s1 = None"
      and sub: "unsettled s1 \<subseteq> unsettled s"
      and set1: "settlements (eventsSince s s1) = 0"
      and np: "\<And>p. \<not> participated p (eventsSince s s1)"
      and o1: "\<And>p. outcomes p [i] [r] (eventsSince s s1)
                    = (if p \<in> unsettled s \<and> p \<notin> unsettled s1 \<and> i \<noteq> RemovePlayer p
                       then 1 else 0)"
      and w1: "\<And>p. hasWager p s1 = (hasWager p s \<and> i \<noteq> RemovePlayer p)"
      by simp_all
    from Cons.IH [OF se fl1 nt1 rn]
    have set2: "settlements (eventsSince s1 s') = 1"
      and le2: "\<And>p. outcomes p ins rs1 (eventsSince s1 s') \<le> (if p \<in> unsettled s1 then 1 else 0)"
      and pa2: "\<And>p. participated p (eventsSince s1 s') \<Longrightarrow>
              hasWager p s1
              \<and> outcomes p ins rs1 (eventsSince s1 s') = (if p \<in> unsettled s1 then 1 else 0)"
      and nr2: "\<And>p. RemovePlayer p \<notin> set ins \<Longrightarrow>
              participated p (eventsSince s1 s') = hasWager p s1
              \<and> outcomes p ins rs1 (eventsSince s1 s') = (if p \<in> unsettled s1 then 1 else 0)"
      by simp_all
    have c1: "settlements (eventsSince s s') = 1"
      by (simp add: es projections_append set1 set2)
    have c2: "outcomes p (i # ins) rs (eventsSince s s') \<le> (if p \<in> unsettled s then 1 else 0)"
      for p
      using le2 [of p] sub by (auto simp: oc o1 split: if_splits)
    have c3: "hasWager p s
              \<and> outcomes p (i # ins) rs (eventsSince s s') = (if p \<in> unsettled s then 1 else 0)"
      if "participated p (eventsSince s s')" for p
    proof -
      from that np [of p] have "participated p (eventsSince s1 s')"
        by (simp add: es projections_append)
      from pa2 [OF this] w1 [of p] sub show ?thesis
        by (auto simp: oc o1 split: if_splits)
    qed
    have c4: "participated p (eventsSince s s') = hasWager p s
              \<and> outcomes p (i # ins) rs (eventsSince s s') = (if p \<in> unsettled s then 1 else 0)"
      if "RemovePlayer p \<notin> set (i # ins)" for p
    proof -
      from that have "RemovePlayer p \<notin> set ins" and ne: "i \<noteq> RemovePlayer p" by auto
      have pe: "participated p (eventsSince s s') = participated p (eventsSince s1 s')"
        using np [of p] by (simp add: es projections_append)
      from nr2 [OF \<open>RemovePlayer p \<notin> set ins\<close>] w1 [of p] ne sub show ?thesis
        unfolding pe by (auto simp: oc o1 split: if_splits)
    qed
    from c1 c2 c3 c4 show ?thesis by blast
  next
    assume b: "state s1 = CRASHED \<and> settlements (eventsSince s s1) = 1
          \<and> (\<forall>p. participated p (eventsSince s s1) = hasWager p s
                \<and> outcomes p [i] [r] (eventsSince s s1)
                    = (if p \<in> unsettled s then 1 else 0))"
    with se have "ins = []" by (cases ins) simp_all
    with rn have "s' = s1" "rs1 = []" by simp_all
    with b rs \<open>ins = []\<close> show ?thesis by simp
  qed
qed

subsection \<open>One outcome for each wager\<close>

text \<open>
  C1, as amended. Take a flight from its start (FLYING, nobody cashed out, no timeout pending: the
  state the \<open>startGame\<close> timeout leaves) through any inputs up to the one that
  crashes it. Then \<open>round_settled\<close> is emitted once, and for every player the number of
  successful \<open>cashOut\<close> calls, plus the number of \<open>player_auto_cashed_out\<close> events,
  plus the number of settlements that list the player among the losers is at most one.
  It is exactly one for every participant of the settlement, and for every wager that
  was active at the start and that no \<open>removePlayer\<close> took away; for a wager that
  \<open>removePlayer\<close> takes away it is at most one, and can be none.
\<close>

theorem C1_exactly_one_outcome:
  assumes "state s0 = FLYING" and "cashedOutPlayers s0 = {}" and "stateTimeout s0 = None"
    and "settles ins s0"
  shows "settlements (eventsSince s0 (snd (run ins s0))) = 1
       \<and> manualCashOuts p ins (fst (run ins s0))
           + autoCashOuts p (eventsSince s0 (snd (run ins s0)))
           + lossesListed p (eventsSince s0 (snd (run ins s0))) \<le> 1
       \<and> (participated p (eventsSince s0 (snd (run ins s0))) \<longrightarrow>
            manualCashOuts p ins (fst (run ins s0))
              + autoCashOuts p (eventsSince s0 (snd (run ins s0)))
              + lossesListed p (eventsSince s0 (snd (run ins s0))) = 1)
       \<and> (hasWager p s0 \<and> RemovePlayer p \<notin> set ins \<longrightarrow>
            participated p (eventsSince s0 (snd (run ins s0)))
            \<and> manualCashOuts p ins (fst (run ins s0))
                + autoCashOuts p (eventsSince s0 (snd (run ins s0)))
                + lossesListed p (eventsSince s0 (snd (run ins s0))) = 1)
       \<and> (stateTimeout s = Some (StartGame, d) \<longrightarrow>
            state (timeoutFires rnd n1 n2 s) = FLYING
            \<and> cashedOutPlayers (timeoutFires rnd n1 n2 s) = {}
            \<and> stateTimeout (timeoutFires rnd n1 n2 s) = None)"
proof -
  let ?rs = "fst (run ins s0)" and ?s' = "snd (run ins s0)"
  have u: "unsettled s0 = fst ` set (activePlayers s0)"
    using assms(2) by (simp add: unsettled_def)
  have r: "run ins s0 = (?rs, ?s')" by simp
  note f = flight_outcomes [OF assms(4,1,3) r]
  have o: "outcomes q ins ?rs (eventsSince s0 ?s')
      = manualCashOuts q ins ?rs + autoCashOuts q (eventsSince s0 ?s')
        + lossesListed q (eventsSince s0 ?s')" for q
    by (simp add: outcomes_def)
  have c1: "settlements (eventsSince s0 ?s') = 1"
    using f by blast
  have c2: "outcomes p ins ?rs (eventsSince s0 ?s') \<le> 1"
  proof -
    from f have "outcomes p ins ?rs (eventsSince s0 ?s') \<le> (if p \<in> unsettled s0 then 1 else 0)"
      by blast
    then show ?thesis by (simp split: if_splits)
  qed
  have c3: "outcomes p ins ?rs (eventsSince s0 ?s') = 1"
    if "participated p (eventsSince s0 ?s')"
  proof -
    from f that have "hasWager p s0
        \<and> outcomes p ins ?rs (eventsSince s0 ?s') = (if p \<in> unsettled s0 then 1 else 0)"
      by blast
    then show ?thesis by (simp add: u hasWager_def)
  qed
  have c4: "participated p (eventsSince s0 ?s') \<and> outcomes p ins ?rs (eventsSince s0 ?s') = 1"
    if "hasWager p s0" "RemovePlayer p \<notin> set ins"
  proof -
    from f that(2) have "participated p (eventsSince s0 ?s') = hasWager p s0
        \<and> outcomes p ins ?rs (eventsSince s0 ?s') = (if p \<in> unsettled s0 then 1 else 0)"
      by blast
    with that(1) show ?thesis by (simp add: u hasWager_def)
  qed
  have c5: "state (timeoutFires rnd n1 n2 s) = FLYING
            \<and> cashedOutPlayers (timeoutFires rnd n1 n2 s) = {}
            \<and> stateTimeout (timeoutFires rnd n1 n2 s) = None"
    if "stateTimeout s = Some (StartGame, d)"
    using that by (simp add: timeoutFires_def startGame_eq)
  from c1 c2 c3 c4 c5 show ?thesis unfolding o by blast
qed

lemma updateGame_stays_flying:
  assumes "state s = FLYING" and "startTime s = Some st"
    and "real_of_int (n1 - st) / 1000 < real_of_int (maxGameTime (config s)) / 1000"
  shows "state (updateGame n1 n2 n3 (1 / 2) s) = FLYING"
proof -
  have nc: "shouldCrash u n (1 / 2) m = False" for u n m
    using crashChance_bounds [of "elapsedSince (startTime u) n" m]
    by (simp add: shouldCrash_def)
  have st: "state (checkAutoCashOuts u) = state u" for u
    using checkAutoCashOuts_loop_same [of "activePlayers u" u]
    by (simp add: checkAutoCashOuts_def)
  show ?thesis
    using assms unfolding updateGame_def Let_def
    by (simp add: nc emit_def st)
qed

lemma cashOut_state: "state (snd (cashOut q s)) = state s"
  by (simp add: cashOut_def Let_def split: option.splits)

text \<open>
  In the example flight the tick, five seconds in, cashes \<open>p2\<close> out automatically at
  \<open>exp 1\<close>; \<open>p1\<close> then cashes out by hand, once; the settlement has no loser.
\<close>

lemma exp_one_bounds: "2 \<le> exp (1::real)" "exp (1::real) \<le> 3"
  using exp_ge_add_one_self [of "1::real"] exp_le by simp_all

lemma example_flight_counts:
  "manualCashOuts ''p1'' example_flight (fst (run example_flight example_flying)) = 1
   \<and> autoCashOuts ''p1'' (eventsSince example_flying (snd (run example_flight example_flying))) = 0
   \<and> lossesListed ''p1'' (eventsSince example_flying (snd (run example_flight example_flying))) = 0
   \<and> manualCashOuts ''p2'' example_flight (fst (run example_flight example_flying)) = 0
   \<and> autoCashOuts ''p2'' (eventsSince example_flying (snd (run example_flight example_flying))) = 1
   \<and> lossesListed ''p2'' (eventsSince example_flying (snd (run example_flight example_flying))) = 0"
proof -
  define f where "f = example_flying"
  have ff: "state f = FLYING" "startTime f = Some 9000" "gameLoopInterval f"
    "cashedOutPlayers f = {}" "lastPredictionBroadcast f = 0"
    "rate (growth f) = 0.2" "minMultiplier (growth f) = 1" "capMultiplier (growth f) = 250"
    "maxGameTime (config f) = 90000"
    "activePlayers f =
     [(''p1'', \<lparr>bet = JNum 100, autoCashOut = None, hasWon = False, placedAt = 1500\<rparr>),
      (''p2'', \<lparr>bet = JNum 50, autoCashOut = Some (JNum 2), hasWon = False, placedAt = 1600\<rparr>)]"
    unfolding f_def by (simp_all add: example_flying_def example_waiting_def lifecycle_defs)
  have m: "calculateMultiplier f 5 = exp 1"
    using exp_one_bounds by (simp add: calculateMultiplier_def ff)
  define t where "t = updateGame 14000 14000 14000 (1 / 2) f"
  have nc: "shouldCrash u n (1 / 2) x = False" for u n x
    using crashChance_bounds [of "elapsedSince (startTime u) n" x]
    by (simp add: shouldCrash_def)
  have t_fields: "state t = FLYING" "cashedOutPlayers t = {''p2''}"
    "map fst (activePlayers t) = [''p1'', ''p2'']"
    "map_of (activePlayers t) ''p1'' = Some \<lparr>bet = JNum 100, autoCashOut = None, hasWon = False, placedAt = 1500\<rparr>"
    "multiplier t = exp 1"
    using exp_one_bounds unfolding t_def updateGame_def Let_def
    by (simp_all add: ff m nc emit_def checkAutoCashOuts_def autoCashOutDue_def
          performAutoCashOut_eq)
  have t_em: "\<exists>pl1 pl2. emitted t = emitted f @
        [MultiplierUpdate pl1,
         PlayerAutoCashedOut ''p2'' (exp 1) (JNum (50 * exp 1)) (JNum 50),
         GameStateSnapshot pl2]"
    using exp_one_bounds unfolding t_def updateGame_def Let_def
    by (simp add: ff m nc emit_def checkAutoCashOuts_def autoCashOutDue_def
          performAutoCashOut_eq autoEvent_def)
  then obtain pl1 pl2 where t_ev: "emitted t = emitted f @
        [MultiplierUpdate pl1,
         PlayerAutoCashedOut ''p2'' (exp 1) (JNum (50 * exp 1)) (JNum 50),
         GameStateSnapshot pl2]"
    by blast
  define c where "c = snd (cashOut ''p1'' t)"
  have c1: "succeeded (fst (cashOut ''p1'' t))"
    by (simp add: cashOut_def Let_def succeeded_def t_fields)
  have c_fields: "state c = FLYING" "cashedOutPlayers c = {''p1'', ''p2''}"
    "fst ` set (activePlayers c) = {''p1'', ''p2''}" "emitted c = emitted t"
    using t_fields(3) map_fst_map_entry [of "''p1''" "\<lambda>d. d\<lparr>hasWon := True\<rparr>" "activePlayers t"]
    unfolding c_def
    by (simp_all add: cashOut_def Let_def t_fields(1,2,4) flip: set_map)
  have c2: "\<not> succeeded (fst (cashOut ''p1'' c))" "snd (cashOut ''p1'' c) = c"
    by (simp_all add: cashOut_def Let_def succeeded_def c_fields split: option.splits)
  define z where "z = crashGame (Some ''admin_override'') 14050 c"
  have rn: "run example_flight f =
      ([NoResult, CashOutResult (fst (cashOut ''p1'' t)), CashOutResult (fst (cashOut ''p1'' c)),
        ForceCrashResult (ForceCrashOk (multiplier c))], z)"
    by (simp add: example_flight_def intervalFires_def ff(3) t_def [symmetric] split_beta
          c_def [symmetric] c2(2) forceCrash_def c_fields(1) Let_def z_def crashGame_fields)
  have un: "unsettled c = {}"
    by (simp add: unsettled_def c_fields)
  obtain e2 where e2: "emitted z = emitted c @ e2"
    by (simp add: z_def crashGame_fields)
  have es: "eventsSince f z = [MultiplierUpdate pl1,
         PlayerAutoCashedOut ''p2'' (exp 1) (JNum (50 * exp 1)) (JNum 50),
         GameStateSnapshot pl2] @ eventsSince c z"
    using t_ev e2 by (simp add: eventsSince_def c_fields(4))
  have zo: "autoCashOuts p (eventsSince c z) = 0" "lossesListed p (eventsSince c z) = 0" for p
    by (simp_all add: z_def crashGame_outcomes un)
  have "manualCashOuts ''p1'' example_flight [NoResult, CashOutResult (fst (cashOut ''p1'' t)),
          CashOutResult (fst (cashOut ''p1'' c)),
          ForceCrashResult (ForceCrashOk (multiplier c))] = 1"
       "manualCashOuts ''p2'' example_flight [NoResult, CashOutResult (fst (cashOut ''p1'' t)),
          CashOutResult (fst (cashOut ''p1'' c)),
          ForceCrashResult (ForceCrashOk (multiplier c))] = 0"
    using c1 c2(1) by (simp_all add: manualCashOuts_def example_flight_def)
  then show ?thesis
    unfolding f_def [symmetric] rn
    by (simp add: es projections_append projections_Cons zo)
qed

theorem C1_exactly_one_outcome_witness:
  "state example_flying = FLYING
   \<and> cashedOutPlayers example_flying = {}
   \<and> stateTimeout example_flying = None
   \<and> settles example_flight example_flying
   \<and> hasWager ''p1'' example_flying \<and> hasWager ''p2'' example_flying
   \<and> RemovePlayer ''p1'' \<notin> set example_flight \<and> RemovePlayer ''p2'' \<notin> set example_flight
   \<and> manualCashOuts ''p1'' example_flight (fst (run example_flight example_flying))
       + autoCashOuts ''p1'' (eventsSince example_flying (snd (run example_flight example_flying)))
       + lossesListed ''p1'' (eventsSince example_flying (snd (run example_flight example_flying)))
       = 1
   \<and> manualCashOuts ''p2'' example_flight (fst (run example_flight example_flying))
       + autoCashOuts ''p2'' (eventsSince example_flying (snd (run example_flight example_flying)))
       + lossesListed ''p2'' (eventsSince example_flying (snd (run example_flight example_flying)))
       = 1
   \<and> manualCashOuts ''p3'' example_flight (fst (run example_flight example_flying))
       + autoCashOuts ''p3'' (eventsSince example_flying (snd (run example_flight example_flying)))
       + lossesListed ''p3'' (eventsSince example_flying (snd (run example_flight example_flying)))
       \<le> 1
   \<and> manualCashOuts ''p1'' example_flight (fst (run example_flight example_flying)) = 1
   \<and> autoCashOuts ''p2'' (eventsSince example_flying (snd (run example_flight example_flying)))
       = 1"
proof -
  have mg: "maxGameTime (config example_flying) = 90000"
    by (simp add: example_flying_def example_waiting_def lifecycle_defs)
  let ?t = "updateGame 14000 14000 14000 (1 / 2) example_flying"
  have t: "state ?t = FLYING"
    by (rule updateGame_stays_flying [where st = 9000])
       (simp_all add: example_flying_facts mg)
  have se: "settles example_flight example_flying"
    using t
    by (simp add: example_flight_def example_flying_facts intervalFires_def split_beta
          cashOut_state forceCrash_def Let_def crashGame_fields)
  have h: "state example_flying = FLYING" "cashedOutPlayers example_flying = {}"
    "stateTimeout example_flying = None"
    by (simp_all add: example_flying_facts)
  have w: "hasWager ''p1'' example_flying" "hasWager ''p2'' example_flying"
    "RemovePlayer ''p1'' \<notin> set example_flight" "RemovePlayer ''p2'' \<notin> set example_flight"
    by (simp_all add: hasWager_def example_flying_facts example_flight_def)
  from C1_exactly_one_outcome [OF h se, of "''p1''" example_waiting 0 0 0 0]
       C1_exactly_one_outcome [OF h se, of "''p2''" example_waiting 0 0 0 0]
       C1_exactly_one_outcome [OF h se, of "''p3''" example_waiting 0 0 0 0]
       h se w example_flight_counts
  show ?thesis by simp
qed

text \<open>
  C1 as stated fails: \<open>p1\<close> has a wager when the flight starts and is removed before
  the crash; the round is settled once, and \<open>p1\<close> has no outcome at all.
\<close>

theorem C1_exactly_one_outcome_counterexample:
  "state example_flying = FLYING
   \<and> cashedOutPlayers example_flying = {}
   \<and> stateTimeout example_flying = None
   \<and> settles example_removed_flight example_flying
   \<and> hasWager ''p1'' example_flying
   \<and> settlements
        (eventsSince example_flying (snd (run example_removed_flight example_flying))) = 1
   \<and> manualCashOuts ''p1'' example_removed_flight
        (fst (run example_removed_flight example_flying))
       + autoCashOuts ''p1''
           (eventsSince example_flying (snd (run example_removed_flight example_flying)))
       + lossesListed ''p1''
           (eventsSince example_flying (snd (run example_removed_flight example_flying)))
       = 0"
proof -
  define r where "r = removePlayer ''p1'' example_flying"
  have rf: "state r = FLYING" "emitted r = emitted example_flying"
    "unsettled r = {''p2''}"
    by (simp_all add: r_def removePlayer_def example_flying_facts unsettled_def)
  define z where "z = crashGame (Some ''admin_override'') 9500 r"
  have rn: "run example_removed_flight example_flying
              = ([NoResult, ForceCrashResult (ForceCrashOk (multiplier r))], z)"
    by (simp add: example_removed_flight_def r_def [symmetric] forceCrash_def rf(1) Let_def
          z_def crashGame_fields)
  have es: "eventsSince example_flying (crashGame (Some ''admin_override'') 9500 r)
              = eventsSince r (crashGame (Some ''admin_override'') 9500 r)"
    by (simp add: eventsSince_def rf(2))
  have se: "settles example_removed_flight example_flying"
    by (simp add: example_removed_flight_def example_flying_facts r_def [symmetric] rf(1)
          forceCrash_def Let_def crashGame_fields)
  have m: "manualCashOuts ''p1'' example_removed_flight
             [NoResult, ForceCrashResult (ForceCrashOk (multiplier r))] = 0"
    by (simp add: manualCashOuts_def example_removed_flight_def)
  show ?thesis
    unfolding rn
    by (simp add: se m es z_def crashGame_outcomes rf(3) example_flying_facts hasWager_def)
qed

end
